(* ===== verification/Prelude.thy ===== *)
theory Prelude
  imports Complex_Main "HOL-Library.Word" "HOL-Library.Finite_Map"
begin

text \<open>
  Shared vocabulary of the development: Rust's integer widths, its saturating
  arithmetic and truncating division, and \<open>std::collections::HashMap\<close> as a finite map
  with the five operations the server uses (\<open>get\<close>, \<open>insert\<close>, \<open>remove\<close>, \<open>retain\<close>, \<open>len\<close>).
  The collection \<open>hm_simps\<close> rewrites every map operation to lookups.
\<close>

named_theorems hm_simps \<open>lookups and sizes of the hash map operations\<close>
named_theorems limiter_defs \<open>the atomic updates of the rate-limit map\<close>
named_theorems wf_intros \<open>preservation of the well-formedness invariants\<close>

section \<open>Machine integers\<close>

type_synonym u8 = "8 word"
type_synonym u64 = "64 word"
type_synonym usize = "64 word"

type_synonym bytes = "8 word list"

text \<open>\<open>saturating_add\<close> and \<open>saturating_sub\<close> of the unsigned integer types.\<close>

definition saturating_add :: "'a::len word \<Rightarrow> 'a word \<Rightarrow> 'a word" where
  "saturating_add x y = (if unat x + unat y < 2 ^ LENGTH('a) then x + y else - 1)"

definition saturating_sub :: "'a::len word \<Rightarrow> 'a word \<Rightarrow> 'a word" where
  "saturating_sub x y = (if y \<le> x then x - y else 0)"

lemma unat_saturating_add:
  "unat (saturating_add x y) = min (unat x + unat y) (2 ^ LENGTH('a) - 1)"
  for x y :: "'a::len word"
proof (cases "unat x + unat y < 2 ^ LENGTH('a)")
  case True
  then show ?thesis by (simp add: saturating_add_def unat_add_lem [symmetric])
next
  case False
  then show ?thesis by (simp add: saturating_add_def unsigned_minus_1_eq_mask mask_eq_exp_minus_1)
qed

lemma unat_saturating_sub: "unat (saturating_sub x y) = unat x - unat y"
  by (simp add: saturating_sub_def unat_sub word_le_nat_alt)

lemma saturating_add_mono: "x \<le> saturating_add x y"
  for x y :: "'a::len word"
proof -
  have "unat x < 2 ^ LENGTH('a)" by (rule unsigned_less)
  then have "unat x \<le> 2 ^ LENGTH('a) - 1" by linarith
  then show ?thesis by (simp add: word_le_nat_alt unat_saturating_add)
qed

text \<open>\<open>usize::try_into::<u8>\<close>: \<open>None\<close> when the value does not fit.\<close>

definition try_into_u8 :: "nat \<Rightarrow> u8 option" where
  "try_into_u8 n = (if n < 256 then Some (of_nat n) else None)"

lemma try_into_u8_Some: "try_into_u8 n = Some c \<longleftrightarrow> n < 256 \<and> c = of_nat n"
  by (auto simp: try_into_u8_def)

lemma unat_try_into_u8: "try_into_u8 n = Some c \<Longrightarrow> unat c = n"
  by (auto simp: try_into_u8_def unat_of_nat split: if_splits)

text \<open>Rust's signed \<open>/\<close> for a positive divisor: it rounds towards zero.\<close>

definition trunc_div :: "int \<Rightarrow> int \<Rightarrow> int" where
  "trunc_div n d = (if 0 \<le> n then n div d else - ((- n) div d))"

lemma trunc_div_nonneg: "0 \<le> n \<Longrightarrow> trunc_div n d = n div d"
  by (simp add: trunc_div_def)

lemma trunc_div_nonpos: "n \<le> 0 \<Longrightarrow> 0 < d \<Longrightarrow> trunc_div n d \<le> 0"
  by (auto simp: trunc_div_def pos_imp_zdiv_nonneg_iff)

section \<open>HashMap\<close>

type_synonym ('k, 'v) hash_map = "('k, 'v) fmap"

definition hm_get :: "('k, 'v) hash_map \<Rightarrow> 'k \<Rightarrow> 'v option" where
  "hm_get m k = fmlookup m k"

definition hm_insert :: "'k \<Rightarrow> 'v \<Rightarrow> ('k, 'v) hash_map \<Rightarrow> ('k, 'v) hash_map" where
  "hm_insert k v m = fmupd k v m"

definition hm_remove :: "'k \<Rightarrow> ('k, 'v) hash_map \<Rightarrow> ('k, 'v) hash_map" where
  "hm_remove k m = fmdrop k m"

definition hm_retain :: "('v \<Rightarrow> bool) \<Rightarrow> ('k, 'v) hash_map \<Rightarrow> ('k, 'v) hash_map" where
  "hm_retain P m = fmfilter (\<lambda>k. case fmlookup m k of Some v \<Rightarrow> P v | None \<Rightarrow> False) m"

definition hm_len :: "('k, 'v) hash_map \<Rightarrow> nat" where
  "hm_len m = fcard (fmdom m)"

definition hm_keys :: "('k, 'v) hash_map \<Rightarrow> 'k set" where
  "hm_keys m = fset (fmdom m)"

lemma hm_get_empty [hm_simps]: "hm_get fmempty k = None"
  by (simp add: hm_get_def)

lemma hm_get_insert [hm_simps]: "hm_get (hm_insert k v m) k' = (if k' = k then Some v else hm_get m k')"
  by (simp add: hm_get_def hm_insert_def)

lemma hm_get_remove [hm_simps]: "hm_get (hm_remove k m) k' = (if k' = k then None else hm_get m k')"
  by (simp add: hm_get_def hm_remove_def)

lemma hm_get_retain [hm_simps]:
  "hm_get (hm_retain P m) k =
     (case hm_get m k of Some v \<Rightarrow> if P v then Some v else None | None \<Rightarrow> None)"
  by (simp add: hm_get_def hm_retain_def split: option.splits)

lemma hm_keys_get: "k \<in> hm_keys m \<longleftrightarrow> (\<exists>v. hm_get m k = Some v)"
  by (simp add: hm_keys_def hm_get_def fmlookup_dom_iff)

lemma hm_get_keys: "hm_get m k = Some v \<Longrightarrow> k \<in> hm_keys m"
  by (auto simp: hm_keys_get)

lemma hm_get_None_keys: "hm_get m k = None \<longleftrightarrow> k \<notin> hm_keys m"
  by (cases "hm_get m k") (auto simp: hm_keys_get)

lemma finite_hm_keys [simp]: "finite (hm_keys m)"
  by (simp add: hm_keys_def)

lemma hm_len_keys: "hm_len m = card (hm_keys m)"
  by (simp add: hm_len_def hm_keys_def fcard.rep_eq)

lemma hm_keys_empty [hm_simps]: "hm_keys fmempty = {}"
  by (simp add: hm_keys_def)

lemma hm_keys_insert [hm_simps]: "hm_keys (hm_insert k v m) = insert k (hm_keys m)"
  by (simp add: hm_keys_def hm_insert_def)

lemma hm_keys_remove [hm_simps]: "hm_keys (hm_remove k m) = hm_keys m - {k}"
  by (simp add: hm_keys_def hm_remove_def)

lemma hm_keys_retain_subset: "hm_keys (hm_retain P m) \<subseteq> hm_keys m"
  by (auto simp: hm_keys_get hm_get_retain split: option.splits if_splits)

lemma hm_len_empty [hm_simps]: "hm_len fmempty = 0"
  by (simp add: hm_len_keys hm_keys_empty)

lemma hm_len_insert [hm_simps]:
  "hm_len (hm_insert k v m) = (if hm_get m k = None then Suc (hm_len m) else hm_len m)"
  by (simp add: hm_len_keys hm_keys_insert hm_get_None_keys card_insert_if)

lemma hm_len_remove [hm_simps]:
  "hm_len (hm_remove k m) = (if hm_get m k = None then hm_len m else hm_len m - 1)"
  by (simp add: hm_len_keys hm_keys_remove hm_get_None_keys)

lemma hm_len_retain_le: "hm_len (hm_retain P m) \<le> hm_len m"
  by (simp add: hm_len_keys card_mono hm_keys_retain_subset)

lemma hm_len_0_iff: "hm_len m = 0 \<longleftrightarrow> (\<forall>k. hm_get m k = None)"
  by (auto simp: hm_len_keys hm_get_None_keys)

lemma hm_eqI: "(\<And>k. hm_get m k = hm_get m' k) \<Longrightarrow> m = m'"
  by (simp add: hm_get_def fmap_ext)

lemma hm_remove_insert [simp]: "hm_remove k (hm_insert k v m) = hm_remove k m"
  by (rule hm_eqI) (simp add: hm_simps)

lemma hm_insert_insert [simp]: "hm_insert k v (hm_insert k w m) = hm_insert k v m"
  by (rule hm_eqI) (simp add: hm_simps)

lemma hm_insert_same: "hm_get m k = Some v \<Longrightarrow> hm_insert k v m = m"
  by (rule hm_eqI) (simp add: hm_simps)

lemma hm_remove_absent: "hm_get m k = None \<Longrightarrow> hm_remove k m = m"
  by (rule hm_eqI) (simp add: hm_simps)

lemma hm_remove_insert_absent: "hm_get m k = None \<Longrightarrow> hm_remove k (hm_insert k v m) = m"
  by (rule hm_eqI) (simp add: hm_simps)

lemma unat_less_256: "unat (x :: u8) < 256"
  using unsigned_less [of x] by simp

end
