(* ===== verification/Utils.thy ===== *)
theory Utils
  imports Prelude
begin

text \<open>
  \<open>src/utils.rs\<close>. A Rust \<open>String\<close> is its UTF-8 bytes, one \<open>char\<close> each, so \<open>length\<close> is \<open>str::len\<close>.
  The crates the file calls (\<open>sha2\<close>, \<open>hex\<close>, \<open>base64\<close>, \<open>chrono\<close>) and the non-ASCII part of
  \<open>str::to_lowercase\<close> are the fields of the parameter record \<open>externals\<close>; what the code relies
  on is stated by \<open>externals_ok\<close>, from the documentation of those crates.
\<close>

type_synonym rust_bytes = "char list"
type_synonym DateTime = int
type_synonym TimeDelta = int

abbreviation nanos_per_second :: int where
  "nanos_per_second \<equiv> 1000000000"

abbreviation nanos_per_minute :: int where
  "nanos_per_minute \<equiv> 60000000000"

record externals =
  sha256_digest :: "rust_bytes \<Rightarrow> rust_bytes"
  hex_encode :: "rust_bytes \<Rightarrow> string"
  hex_decode :: "string \<Rightarrow> rust_bytes option"
  base64_decode :: "string \<Rightarrow> rust_bytes option"
  unicode_lowercase :: "string \<Rightarrow> string"
  duration_trunc :: "DateTime \<Rightarrow> TimeDelta \<Rightarrow> DateTime option"

section \<open>Characters and case\<close>

definition char_code :: "char \<Rightarrow> nat" where
  "char_code c = of_char c"

definition is_ascii :: "char \<Rightarrow> bool" where
  "is_ascii c \<longleftrightarrow> char_code c < 128"

definition is_ascii_hexdigit :: "char \<Rightarrow> bool" where
  "is_ascii_hexdigit c \<longleftrightarrow>
     48 \<le> char_code c \<and> char_code c \<le> 57 \<or>
     65 \<le> char_code c \<and> char_code c \<le> 70 \<or>
     97 \<le> char_code c \<and> char_code c \<le> 102"

definition to_ascii_lowercase :: "char \<Rightarrow> char" where
  "to_ascii_lowercase c = (if 65 \<le> char_code c \<and> char_code c \<le> 90 then char_of (char_code c + 32) else c)"

definition to_ascii_uppercase :: "char \<Rightarrow> char" where
  "to_ascii_uppercase c = (if 97 \<le> char_code c \<and> char_code c \<le> 122 then char_of (char_code c - 32) else c)"

text \<open>\<open>str::to_lowercase\<close>: byte by byte on ASCII, by the Unicode tables otherwise.\<close>

definition to_lowercase :: "externals \<Rightarrow> string \<Rightarrow> string" where
  "to_lowercase X s = (if list_all is_ascii s then map to_ascii_lowercase s else unicode_lowercase X s)"

section \<open>The functions of utils.rs\<close>

definition is_hex :: "string \<Rightarrow> bool" where
  "is_hex input = list_all is_ascii_hexdigit input"

definition is_base64 :: "externals \<Rightarrow> string \<Rightarrow> bool" where
  "is_base64 X input = (if length input mod 4 \<noteq> 0 then False else base64_decode X input \<noteq> None)"

definition is_length :: "nat \<Rightarrow> string \<Rightarrow> bool" where
  "is_length n input \<longleftrightarrow> length input = n"

definition is_256bits_hex_hash :: "string \<Rightarrow> bool" where
  "is_256bits_hex_hash input \<longleftrightarrow> is_length 64 input \<and> is_hex input"

definition sha256_hex :: "externals \<Rightarrow> rust_bytes \<Rightarrow> string" where
  "sha256_hex X data = hex_encode X (sha256_digest X data)"

definition identifier_hash :: "externals \<Rightarrow> string \<Rightarrow> string option" where
  "identifier_hash X identifier = map_option (sha256_hex X) (hex_decode X identifier)"

text \<open>\<open>None\<close> is the panic of the \<open>expect\<close>.\<close>

definition truncate_to_hour :: "externals \<Rightarrow> DateTime \<Rightarrow> DateTime option" where
  "truncate_to_hour X timestamp = duration_trunc X timestamp (3600 * nanos_per_second)"

definition generate_secret_id :: "externals \<Rightarrow> string \<Rightarrow> string \<Rightarrow> string" where
  "generate_secret_id X identifier authentication_key =
     (let identifier_and_authentication_key = identifier @ authentication_key
      in sha256_hex X identifier_and_authentication_key)"

section \<open>What the code relies on in other crates\<close>

text \<open>
  \<open>hex\<close>: decoding accepts exactly the even-length strings of hex digits and undoes encoding;
  encoding writes lowercase digits. \<open>base64\<close>: the standard alphabet with padding.
  \<open>to_lowercase\<close>: no non-ASCII letter has a lowercase form made of hex digits, so a string with
  a non-ASCII character keeps a character that is no hex digit. \<open>duration_trunc\<close>: the largest
  multiple of the span that is not after the timestamp, for timestamps \<open>i64\<close> nanoseconds hold.
\<close>

definition base64_char :: "char \<Rightarrow> bool" where
  "base64_char c \<longleftrightarrow>
     48 \<le> char_code c \<and> char_code c \<le> 57 \<or> 65 \<le> char_code c \<and> char_code c \<le> 90 \<or>
     97 \<le> char_code c \<and> char_code c \<le> 122 \<or> c = CHR ''+'' \<or> c = CHR ''/'' \<or> c = CHR ''=''"

definition hex_ok :: "externals \<Rightarrow> bool" where
  "hex_ok X \<longleftrightarrow>
     (\<forall>s. (hex_decode X s \<noteq> None) = (even (length s) \<and> is_hex s)) \<and>
     (\<forall>b. hex_decode X (hex_encode X b) = Some b) \<and>
     (\<forall>b. map to_ascii_lowercase (hex_encode X b) = hex_encode X b)"

definition base64_ok :: "externals \<Rightarrow> bool" where
  "base64_ok X \<longleftrightarrow> (\<forall>s. base64_decode X s \<noteq> None \<longrightarrow> list_all base64_char s)"

definition lowercase_ok :: "externals \<Rightarrow> bool" where
  "lowercase_ok X \<longleftrightarrow> (\<forall>s. \<not> list_all is_ascii s \<longrightarrow> \<not> is_hex (unicode_lowercase X s))"

definition trunc_ok :: "externals \<Rightarrow> bool" where
  "trunc_ok X \<longleftrightarrow>
     (\<forall>t span. 0 < span \<and> - (2 ^ 63) \<le> t \<and> t < 2 ^ 63 \<and> span < 2 ^ 63 \<longrightarrow>
        duration_trunc X t span = Some (t - t mod span))"

definition externals_ok :: "externals \<Rightarrow> bool" where
  "externals_ok X \<longleftrightarrow> hex_ok X \<and> base64_ok X \<and> lowercase_ok X \<and> trunc_ok X"

section \<open>Facts about hex strings\<close>

lemma char_code_char_of: "n < 256 \<Longrightarrow> char_code (char_of n) = n"
  by (simp add: char_code_def of_char_of)

lemma is_ascii_hexdigit_ascii: "is_ascii_hexdigit c \<Longrightarrow> is_ascii c"
  by (auto simp: is_ascii_hexdigit_def is_ascii_def)

lemma is_ascii_hexdigit_lower [simp]:
  "is_ascii_hexdigit (to_ascii_lowercase c) = is_ascii_hexdigit c"
  by (auto simp: is_ascii_hexdigit_def to_ascii_lowercase_def char_code_char_of)

lemma to_ascii_lowercase_idem [simp]:
  "to_ascii_lowercase (to_ascii_lowercase c) = to_ascii_lowercase c"
  by (auto simp: to_ascii_lowercase_def char_code_char_of)

lemma lower_upper: "to_ascii_lowercase (to_ascii_uppercase c) = to_ascii_lowercase c"
  by (auto simp: to_ascii_lowercase_def to_ascii_uppercase_def char_code_char_of char_code_def)

lemma is_hex_ascii: "is_hex s \<Longrightarrow> list_all is_ascii s"
  by (auto simp: is_hex_def list_all_iff is_ascii_hexdigit_ascii)

lemma is_hex_lower [simp]: "is_hex (map to_ascii_lowercase s) = is_hex s"
  by (simp add: is_hex_def list_all_iff)

lemma is_hash_lower [simp]:
  "is_256bits_hex_hash (map to_ascii_lowercase s) = is_256bits_hex_hash s"
  by (simp add: is_256bits_hex_hash_def is_length_def)

lemma to_lowercase_hex: "is_hex s \<Longrightarrow> to_lowercase X s = map to_ascii_lowercase s"
  by (simp add: to_lowercase_def is_hex_ascii)

text \<open>The lowercased input passes the check exactly when the input itself is 64 hex digits.\<close>

lemma validated_iff:
  assumes "lowercase_ok X"
  shows "is_256bits_hex_hash (to_lowercase X s) \<longleftrightarrow> is_256bits_hex_hash s"
proof (cases "list_all is_ascii s")
  case True
  then show ?thesis by (simp add: to_lowercase_def)
next
  case False
  with assms have "\<not> is_hex (unicode_lowercase X s)" by (simp add: lowercase_ok_def)
  moreover have "\<not> is_hex s" using False is_hex_ascii by blast
  ultimately show ?thesis using False by (simp add: to_lowercase_def is_256bits_hex_hash_def)
qed

lemma identifier_hash_total:
  "hex_ok X \<Longrightarrow> is_256bits_hex_hash s \<Longrightarrow> \<exists>h. identifier_hash X s = Some h"
  by (auto simp: identifier_hash_def hex_ok_def is_256bits_hex_hash_def is_length_def)

section \<open>A reference instance\<close>

text \<open>
  Hex as the crate documents it, and the simplest functions that satisfy the other
  hypotheses: the concrete externals of the witnesses.
\<close>

definition hex_digit :: "nat \<Rightarrow> char" where
  "hex_digit n = char_of (if n < 10 then n + 48 else n + 87)"

definition hex_value :: "char \<Rightarrow> nat" where
  "hex_value c = (let n = char_code (to_ascii_lowercase c) in if n \<le> 57 then n - 48 else n - 87)"

fun encode_hex :: "rust_bytes \<Rightarrow> string" where
  "encode_hex [] = []"
| "encode_hex (c # cs) = hex_digit (char_code c div 16) # hex_digit (char_code c mod 16) # encode_hex cs"

fun decode_hex :: "string \<Rightarrow> rust_bytes option" where
  "decode_hex [] = Some []"
| "decode_hex [c] = None"
| "decode_hex (c # d # cs) =
     (if is_ascii_hexdigit c \<and> is_ascii_hexdigit d
      then map_option (Cons (char_of (16 * hex_value c + hex_value d))) (decode_hex cs) else None)"

definition reference_externals :: externals where
  "reference_externals =
     \<lparr>sha256_digest = (\<lambda>b. b), hex_encode = encode_hex, hex_decode = decode_hex,
      base64_decode = (\<lambda>s. if list_all base64_char s then Some s else None),
      unicode_lowercase = (\<lambda>s. s), duration_trunc = (\<lambda>t d. Some (t - t mod d))\<rparr>"

lemma hex_digit_code: "n < 16 \<Longrightarrow> char_code (hex_digit n) = (if n < 10 then n + 48 else n + 87)"
  by (simp add: hex_digit_def char_code_char_of)

lemma hex_digit_facts:
  assumes "n < 16"
  shows "is_ascii_hexdigit (hex_digit n)" "to_ascii_lowercase (hex_digit n) = hex_digit n"
    "hex_value (hex_digit n) = n"
  using assms
  by (auto simp: is_ascii_hexdigit_def to_ascii_lowercase_def hex_value_def Let_def hex_digit_code split: if_splits)

lemma char_of_code: "char_of (char_code c) = c"
  by (simp add: char_code_def)

lemma char_code_less: "char_code c < 256"
  by (simp add: char_code_def)

lemma decode_encode_hex: "decode_hex (encode_hex b) = Some b"
proof (induction b)
  case (Cons c b)
  have "char_code c div 16 < 16" using char_code_less [of c] by simp
  with Cons show ?case by (simp add: hex_digit_facts char_of_code)
qed simp

lemma encode_hex_lower: "map to_ascii_lowercase (encode_hex b) = encode_hex b"
proof (induction b)
  case (Cons c b)
  have "char_code c div 16 < 16" using char_code_less [of c] by simp
  with Cons show ?case by (simp add: hex_digit_facts)
qed simp

lemma decode_hex_iff: "(decode_hex s \<noteq> None) = (even (length s) \<and> is_hex s)"
  by (induction s rule: decode_hex.induct) (auto simp: is_hex_def)

lemma reference_externals_ok: "externals_ok reference_externals"
  by (auto simp: externals_ok_def hex_ok_def base64_ok_def lowercase_ok_def trunc_ok_def
      reference_externals_def decode_hex_iff [simplified] decode_encode_hex encode_hex_lower
      dest: is_hex_ascii)

end
