(* ===== verification/Models.thy ===== *)
theory Models
  imports Utils
begin

text \<open>
  The data of \<open>src/models.rs\<close> and the HTTP responses the handlers build from it. Instants are
  nanoseconds since the Unix epoch (\<open>DateTime\<close>) and spans are nanoseconds (\<open>TimeDelta\<close>).
\<close>

section \<open>Requests and rows\<close>

record StoreSecret =
  ss_identifier :: string
  ss_authentication_key :: string
  ss_encrypted_secret :: string

record FetchSecret =
  fs_identifier :: string
  fs_authentication_key :: string

record Secret =
  sec_id :: string
  sec_created_at :: string
  sec_encrypted_secret :: string

section \<open>Rate-limit state\<close>

datatype CandidateState = Pending | Committed

type_synonym CandidateTag = string

record RateLimitInfo =
  window_started_at :: DateTime
  last_candidate_at :: DateTime
  last_request_at :: DateTime
  candidates :: "(CandidateTag, CandidateState) hash_map"
  failed_candidates :: u8
  total_requests :: u64

type_synonym RateLimitMap = "(string, RateLimitInfo) hash_map"

definition RateLimitInfo_new :: "DateTime \<Rightarrow> RateLimitInfo" where
  "RateLimitInfo_new now =
     \<lparr>window_started_at = now, last_candidate_at = now, last_request_at = now,
      candidates = fmempty, failed_candidates = 0, total_requests = 0\<rparr>"

text \<open>\<open>None\<close> is the panic of the \<open>expect\<close>.\<close>

definition candidate_count :: "RateLimitInfo \<Rightarrow> u8 option" where
  "candidate_count info = try_into_u8 (hm_len (candidates info))"

lemma candidate_count_Some:
  "candidate_count info = Some c \<Longrightarrow> unat c = hm_len (candidates info)"
  by (simp add: candidate_count_def unat_try_into_u8)

section \<open>Response bodies\<close>

record AttemptStatus =
  as_version :: u8
  as_total_attempts :: u8
  as_failed_attempts :: u8
  as_remaining_attempts :: u8
  as_total_requests :: u64
  as_window_started_at :: DateTime
  as_previous_attempt_at :: "DateTime option"
  as_resets_at :: DateTime

record ResponseFailedAttempt =
  rf_error :: string
  rf_requested_at :: DateTime
  rf_rate_limit_cooldown :: int
  rf_attempts :: u8
  rf_total_requests :: u64

record Info =
  info_secret_max_length :: usize
  info_canary :: string
  info_rate_limit_cooldown :: u64
  info_rate_limit_max_attempts :: u8
  info_rate_limit_max_failed_attempts :: u8
  info_attempts_collection_started_at :: DateTime
  info_max_attempt_identifiers :: usize

record AttemptEntry =
  ae_id_hash :: string
  ae_total_attempts :: u8
  ae_failed_attempts :: u8
  ae_total_requests :: u64
  ae_window_started_at :: DateTime
  ae_last_attempt_at :: DateTime

record AttemptsSnapshot =
  snap_version :: u8
  snap_collection_started_at :: DateTime
  snap_entries :: "AttemptEntry list"

section \<open>HTTP responses\<close>

datatype StatusCode =
    OK | CREATED | ACCEPTED | NOT_MODIFIED
  | BAD_REQUEST | UNAUTHORIZED | TOO_MANY_REQUESTS
  | INTERNAL_SERVER_ERROR | SERVICE_UNAVAILABLE

fun as_u16 :: "StatusCode \<Rightarrow> nat" where
  "as_u16 OK = 200"
| "as_u16 CREATED = 201"
| "as_u16 ACCEPTED = 202"
| "as_u16 NOT_MODIFIED = 304"
| "as_u16 BAD_REQUEST = 400"
| "as_u16 UNAUTHORIZED = 401"
| "as_u16 TOO_MANY_REQUESTS = 429"
| "as_u16 INTERNAL_SERVER_ERROR = 500"
| "as_u16 SERVICE_UNAVAILABLE = 503"

lemma as_u16_inject [simp]: "as_u16 a = as_u16 b \<longleftrightarrow> a = b"
  by (cases a; cases b) simp_all

text \<open>Status codes are ordered by their number: the errors are those from \<open>400\<close> on.\<close>

instantiation StatusCode :: linorder
begin

definition less_eq_StatusCode :: "StatusCode \<Rightarrow> StatusCode \<Rightarrow> bool" where
  "less_eq_StatusCode a b \<longleftrightarrow> as_u16 a \<le> as_u16 b"

definition less_StatusCode :: "StatusCode \<Rightarrow> StatusCode \<Rightarrow> bool" where
  "less_StatusCode a b \<longleftrightarrow> as_u16 a < as_u16 b"

instance
  by standard (auto simp: less_eq_StatusCode_def less_StatusCode_def)

end

text \<open>
  The bodies: no body, JSON \<open>null\<close>, \<open>{"error": \<dots>}\<close>, the lockout object of \<open>rate_limited\<close>
  (error, requested_at, rate_limit_cooldown, attempts), and the serialized structs above.
\<close>

datatype Body =
    Empty
  | Null
  | ErrorBody string
  | Lockout string DateTime int u8
  | FailedAttempt ResponseFailedAttempt
  | Released Secret AttemptStatus
  | InfoBody Info
  | Bytes rust_bytes

datatype Header =
    Retry_After u64
  | ETag string
  | Cache_Control_Max_Age u64
  | Content_Type string
  | Content_Encoding string

record Response =
  status :: StatusCode
  headers :: "Header list"
  body :: Body

definition error_body :: "string \<Rightarrow> Body" where
  "error_body error = ErrorBody error"

definition plain_response :: "StatusCode \<Rightarrow> Body \<Rightarrow> Response" where
  "plain_response code b = \<lparr>status = code, headers = [], body = b\<rparr>"

definition retry_after_response :: "StatusCode \<Rightarrow> u64 \<Rightarrow> string \<Rightarrow> Response" where
  "retry_after_response code retry_after_secs error =
     \<lparr>status = code, headers = [Retry_After retry_after_secs], body = error_body error\<rparr>"

lemma retry_after_response_sel [simp]:
  "status (retry_after_response c n e) = c"
  "headers (retry_after_response c n e) = [Retry_After n]"
  "body (retry_after_response c n e) = ErrorBody e"
  by (simp_all add: retry_after_response_def error_body_def)

lemma plain_response_sel [simp]:
  "status (plain_response c b) = c" "headers (plain_response c b) = []" "body (plain_response c b) = b"
  by (simp_all add: plain_response_def)

definition has_retry_after :: "Response \<Rightarrow> bool" where
  "has_retry_after r \<longleftrightarrow> (\<exists>n. Retry_After n \<in> set (headers r))"

lemma has_retry_after_simps [simp]:
  "has_retry_after (retry_after_response c n e)"
  "\<not> has_retry_after (plain_response c b)"
  by (simp_all add: has_retry_after_def)

end
