(* ===== verification/Limiter.thy ===== *)
theory Limiter
  imports Models
begin

text \<open>
  The rate-limit map \<open>AppState::identifier_rate_limit\<close> and every atomic update made under its
  lock: the admission block, \<open>remove_pending\<close>, \<open>attempt_status\<close>, \<open>rate_limited\<close> and \<open>finalize\<close> of
  \<open>src/handlers/fetch.rs\<close>, and the sweep of \<open>src/rate_limit.rs\<close>, which \<open>fetch.rs\<close> and
  \<open>attempts.rs\<close> repeat as a \<open>retain\<close>. Configuration values are arguments: the cooldown, the
  candidate budget \<open>rate_limit_max_attempts\<close> and the map capacity \<open>rate_limit_max_identifiers\<close>.
\<close>

section \<open>Removing reservations and expired entries\<close>

definition remove_pending :: "string \<Rightarrow> CandidateTag \<Rightarrow> DateTime \<Rightarrow> RateLimitMap \<Rightarrow> RateLimitMap" where
  "remove_pending id_hash candidate generation m =
     (case hm_get m id_hash of
        None \<Rightarrow> m
      | Some info \<Rightarrow>
          (let info' =
                 (if window_started_at info = generation \<and>
                     hm_get (candidates info) candidate = Some Pending
                  then info\<lparr>candidates := hm_remove candidate (candidates info)\<rparr>
                  else info);
               m' = hm_insert id_hash info' m
           in if window_started_at info' = generation \<and> hm_len (candidates info') = 0
              then hm_remove id_hash m' else m'))"

definition active :: "TimeDelta \<Rightarrow> DateTime \<Rightarrow> RateLimitInfo \<Rightarrow> bool" where
  "active cooldown now info \<longleftrightarrow> now - last_candidate_at info \<le> cooldown"

definition sweep_expired_identifiers :: "TimeDelta \<Rightarrow> DateTime \<Rightarrow> RateLimitMap \<Rightarrow> RateLimitMap" where
  "sweep_expired_identifiers cooldown now m = hm_retain (active cooldown now) m"

section \<open>The admission block\<close>

definition attempt_status ::
  "RateLimitInfo \<Rightarrow> u8 \<Rightarrow> DateTime option \<Rightarrow> TimeDelta \<Rightarrow> AttemptStatus option" where
  "attempt_status info max_attempts previous cooldown =
     (case candidate_count info of
        None \<Rightarrow> None
      | Some count \<Rightarrow> Some
          \<lparr>as_version = 1,
           as_total_attempts = count,
           as_failed_attempts = failed_candidates info,
           as_remaining_attempts = saturating_sub max_attempts count,
           as_total_requests = total_requests info,
           as_window_started_at = window_started_at info,
           as_previous_attempt_at = previous,
           as_resets_at = last_candidate_at info + cooldown\<rparr>)"

definition retry_after_secs :: "TimeDelta \<Rightarrow> DateTime \<Rightarrow> DateTime \<Rightarrow> int" where
  "retry_after_secs cooldown last_at requested_at =
     max (trunc_div (last_at + cooldown - requested_at) nanos_per_second) 1"

definition rate_limited :: "TimeDelta \<Rightarrow> u8 \<Rightarrow> DateTime \<Rightarrow> DateTime \<Rightarrow> Response" where
  "rate_limited cooldown count last_at requested_at =
     \<lparr>status = TOO_MANY_REQUESTS,
      headers = [Retry_After (word_of_int (retry_after_secs cooldown last_at requested_at))],
      body = Lockout ''Too many attempts'' last_at (trunc_div cooldown nanos_per_minute) count\<rparr>"

datatype Admission =
    New AttemptStatus DateTime
  | Replay AttemptStatus DateTime
  | PendingDuplicate

text \<open>
  The outcome of the block: an early return, an admission, or the panic of a failed
  conversion in \<open>candidate_count\<close>.
\<close>

datatype admit_result = Rejected Response | Admitted Admission | AdmitPanic

definition drop_expired :: "TimeDelta \<Rightarrow> string \<Rightarrow> DateTime \<Rightarrow> RateLimitMap \<Rightarrow> RateLimitMap" where
  "drop_expired cooldown id_hash requested_at m =
     (case hm_get m id_hash of
        Some info \<Rightarrow>
          if requested_at - last_candidate_at info > cooldown then hm_remove id_hash m else m
      | None \<Rightarrow> m)"

text \<open>The capacity check: whether there is room for the identifier, and the map after it.\<close>

definition make_room ::
  "TimeDelta \<Rightarrow> usize \<Rightarrow> string \<Rightarrow> DateTime \<Rightarrow> RateLimitMap \<Rightarrow> bool \<times> RateLimitMap" where
  "make_room cooldown max_identifiers id_hash requested_at m =
     (if hm_get m id_hash = None \<and> unat max_identifiers \<le> hm_len m
      then (let m' = hm_retain (active cooldown requested_at) m
            in (hm_len m' < unat max_identifiers, m'))
      else (True, m))"

definition touch_entry :: "string \<Rightarrow> DateTime \<Rightarrow> RateLimitMap \<Rightarrow> RateLimitInfo" where
  "touch_entry id_hash requested_at m =
     (let info = (case hm_get m id_hash of Some i \<Rightarrow> i | None \<Rightarrow> RateLimitInfo_new requested_at)
      in info\<lparr>total_requests := saturating_add (total_requests info) 1,
              last_request_at := requested_at\<rparr>)"

definition decide ::
  "TimeDelta \<Rightarrow> u8 \<Rightarrow> CandidateTag \<Rightarrow> DateTime \<Rightarrow> RateLimitInfo \<Rightarrow> admit_result \<times> RateLimitInfo" where
  "decide cooldown max_attempts candidate requested_at info =
     (case candidate_count info of
        None \<Rightarrow> (AdmitPanic, info)
      | Some count \<Rightarrow>
          if max_attempts \<le> count
          then (Rejected (rate_limited cooldown count (last_candidate_at info) requested_at), info)
          else
            (case hm_get (candidates info) candidate of
               Some Pending \<Rightarrow> (Admitted PendingDuplicate, info)
             | Some Committed \<Rightarrow>
                 (case attempt_status info max_attempts None cooldown of
                    None \<Rightarrow> (AdmitPanic, info)
                  | Some s \<Rightarrow> (Admitted (Replay s (window_started_at info)), info))
             | None \<Rightarrow>
                 (let previous = (if 0 < count then Some (last_candidate_at info) else None);
                      info' = info\<lparr>candidates := hm_insert candidate Pending (candidates info),
                                   last_candidate_at := requested_at\<rparr>
                  in case attempt_status info' max_attempts previous cooldown of
                       None \<Rightarrow> (AdmitPanic, info')
                     | Some s \<Rightarrow> (Admitted (New s (window_started_at info')), info'))))"

definition GLOBAL_OVERLOAD_RETRY_AFTER_SECS :: u64 where
  "GLOBAL_OVERLOAD_RETRY_AFTER_SECS = 1"

definition admit ::
  "TimeDelta \<Rightarrow> u8 \<Rightarrow> usize \<Rightarrow> string \<Rightarrow> CandidateTag \<Rightarrow> DateTime \<Rightarrow> RateLimitMap
     \<Rightarrow> admit_result \<times> RateLimitMap" where
  "admit cooldown max_attempts max_identifiers id_hash candidate requested_at m =
     (let m1 = drop_expired cooldown id_hash requested_at m;
          (room, m2) = make_room cooldown max_identifiers id_hash requested_at m1
      in if \<not> room
         then (Rejected (retry_after_response SERVICE_UNAVAILABLE GLOBAL_OVERLOAD_RETRY_AFTER_SECS
                 ''Rate-limit capacity exhausted, retry later''), m2)
         else
           (let (r, info') = decide cooldown max_attempts candidate requested_at
                               (touch_entry id_hash requested_at m2)
            in (r, hm_insert id_hash info' m2)))"

section \<open>Finalization\<close>

datatype FinalizerError = Database string | Join string

type_synonym LookupResult = "FinalizerError + Secret option"

definition finalize ::
  "string \<Rightarrow> CandidateTag \<Rightarrow> DateTime \<Rightarrow> LookupResult \<Rightarrow> RateLimitMap \<Rightarrow> RateLimitMap" where
  "finalize id_hash candidate generation result m =
     (case hm_get m id_hash of
        None \<Rightarrow> m
      | Some info \<Rightarrow>
          if window_started_at info \<noteq> generation \<or>
             hm_get (candidates info) candidate \<noteq> Some Pending
          then m
          else
            (case result of
               Inr (Some _) \<Rightarrow>
                 hm_insert id_hash
                   (info\<lparr>candidates := hm_insert candidate Committed (candidates info)\<rparr>) m
             | Inr None \<Rightarrow>
                 hm_insert id_hash
                   (info\<lparr>candidates := hm_insert candidate Committed (candidates info),
                         failed_candidates := saturating_add (failed_candidates info) 1\<rparr>) m
             | Inl _ \<Rightarrow>
                 (let info' = info\<lparr>candidates := hm_remove candidate (candidates info)\<rparr>
                  in if hm_len (candidates info') = 0 then hm_remove id_hash m
                     else hm_insert id_hash info' m)))"

lemmas [limiter_defs] = remove_pending_def sweep_expired_identifiers_def admit_def drop_expired_def
  make_room_def touch_entry_def decide_def finalize_def

section \<open>Well-formedness\<close>

text \<open>
  Every entry holds at least one and at most \<open>max_attempts\<close> candidates, and counts no more
  failures than it has committed candidates; the map holds at most \<open>max_identifiers\<close> entries.
\<close>

definition committed_count :: "RateLimitInfo \<Rightarrow> nat" where
  "committed_count info = card {c \<in> hm_keys (candidates info). hm_get (candidates info) c = Some Committed}"

definition budget_ok :: "u8 \<Rightarrow> RateLimitInfo \<Rightarrow> bool" where
  "budget_ok max_attempts info \<longleftrightarrow>
     hm_len (candidates info) \<le> unat max_attempts \<and>
     unat (failed_candidates info) \<le> committed_count info"

definition info_wf :: "u8 \<Rightarrow> RateLimitInfo \<Rightarrow> bool" where
  "info_wf max_attempts info \<longleftrightarrow> budget_ok max_attempts info \<and> 0 < hm_len (candidates info)"

definition map_wf :: "u8 \<Rightarrow> usize \<Rightarrow> RateLimitMap \<Rightarrow> bool" where
  "map_wf max_attempts max_identifiers m \<longleftrightarrow>
     (\<forall>id_hash info. hm_get m id_hash = Some info \<longrightarrow> info_wf max_attempts info) \<and>
     hm_len m \<le> unat max_identifiers"

lemma map_wf_get: "map_wf a b m \<Longrightarrow> hm_get m i = Some info \<Longrightarrow> info_wf a info"
  by (simp add: map_wf_def)

lemma map_wf_len: "map_wf a b m \<Longrightarrow> hm_len m \<le> unat b"
  by (simp add: map_wf_def)

lemma committed_count_cong:
  assumes "\<And>c. (hm_get (candidates i) c = Some Committed) = (hm_get (candidates j) c = Some Committed)"
  shows "committed_count i = committed_count j"
proof -
  have "{c \<in> hm_keys (candidates i). hm_get (candidates i) c = Some Committed}
      = {c \<in> hm_keys (candidates j). hm_get (candidates j) c = Some Committed}"
    using assms by (auto simp: hm_keys_get)
  then show ?thesis by (simp add: committed_count_def)
qed

lemma committed_count_commit:
  assumes "hm_get (candidates info) c = Some Pending"
  shows "committed_count (info\<lparr>candidates := hm_insert c Committed (candidates info)\<rparr>)
    = Suc (committed_count info)"
proof -
  have "{c' \<in> hm_keys (hm_insert c Committed (candidates info)).
           hm_get (hm_insert c Committed (candidates info)) c' = Some Committed}
      = insert c {c' \<in> hm_keys (candidates info). hm_get (candidates info) c' = Some Committed}"
    by (auto simp: hm_simps hm_keys_get)
  then show ?thesis using assms by (simp add: committed_count_def)
qed

lemma budget_ok_count:
  "budget_ok a info \<Longrightarrow> \<exists>n. candidate_count info = Some n \<and> unat n = hm_len (candidates info)"
  using unat_less_256 [of a]
  by (auto simp: budget_ok_def candidate_count_def try_into_u8_def unat_of_nat)

section \<open>Every atomic update keeps the map well formed\<close>

lemma map_wf_remove [wf_intros]: "map_wf a b m \<Longrightarrow> map_wf a b (hm_remove i m)"
  by (auto simp: map_wf_def hm_simps split: if_splits)

lemma map_wf_retain [wf_intros]: "map_wf a b m \<Longrightarrow> map_wf a b (hm_retain P m)"
  using hm_len_retain_le [of P m]
  by (auto simp: map_wf_def hm_simps split: option.splits if_splits)

lemma map_wf_insert:
  "map_wf a b m \<Longrightarrow> info_wf a info \<Longrightarrow> hm_get m i \<noteq> None \<or> hm_len m < unat b \<Longrightarrow>
     map_wf a b (hm_insert i info m)"
  by (auto simp: map_wf_def hm_simps)

lemma sweep_wf [wf_intros]:
  "map_wf a b m \<Longrightarrow> map_wf a b (sweep_expired_identifiers cooldown now m)"
  by (simp add: sweep_expired_identifiers_def map_wf_retain)

lemma drop_expired_wf [wf_intros]: "map_wf a b m \<Longrightarrow> map_wf a b (drop_expired cooldown i now m)"
  by (simp add: drop_expired_def map_wf_remove split: option.splits)

lemma budget_ok_remove_pending:
  assumes "budget_ok a info" "hm_get (candidates info) c = Some Pending"
  shows "budget_ok a (info\<lparr>candidates := hm_remove c (candidates info)\<rparr>)"
  using assms committed_count_cong [of "info\<lparr>candidates := hm_remove c (candidates info)\<rparr>" info]
  by (auto simp: budget_ok_def hm_simps)

lemma remove_pending_wf [wf_intros]:
  assumes "map_wf a b m"
  shows "map_wf a b (remove_pending i c g m)"
proof (cases "hm_get m i")
  case None
  with assms show ?thesis by (simp add: remove_pending_def)
next
  case (Some info)
  have wf: "info_wf a info" using assms Some by (rule map_wf_get)
  show ?thesis
    using assms Some wf budget_ok_remove_pending [of a info c]
    by (auto simp: remove_pending_def Let_def info_wf_def intro!: map_wf_insert wf_intros)
qed

lemma finalize_wf [wf_intros]:
  assumes "map_wf a b m"
  shows "map_wf a b (finalize i c g res m)"
proof (cases "hm_get m i")
  case None
  with assms show ?thesis by (simp add: finalize_def)
next
  case (Some info)
  have wf: "info_wf a info" using assms Some by (rule map_wf_get)
  show ?thesis
  proof (cases "window_started_at info = g \<and> hm_get (candidates info) c = Some Pending")
    case False
    with assms Some show ?thesis by (auto simp: finalize_def)
  next
    case True
    let ?i1 = "info\<lparr>candidates := hm_insert c Committed (candidates info)\<rparr>"
    let ?i2 = "?i1\<lparr>failed_candidates := saturating_add (failed_candidates info) 1\<rparr>"
    have "committed_count ?i2 = Suc (committed_count info)"
      using committed_count_commit [of info c] True by (simp add: committed_count_def)
    then have "info_wf a ?i1" "info_wf a ?i2"
      using wf True committed_count_commit [of info c]
      by (auto simp: info_wf_def budget_ok_def hm_simps unat_saturating_add)
    moreover have "info_wf a (info\<lparr>candidates := hm_remove c (candidates info)\<rparr>)"
      if "hm_len (hm_remove c (candidates info)) \<noteq> 0"
      using that wf True budget_ok_remove_pending [of a info c] by (simp add: info_wf_def)
    ultimately show ?thesis
      using assms Some True
      by (auto simp: finalize_def Let_def intro!: map_wf_insert map_wf_remove
          split: sum.splits option.splits)
  qed
qed

lemma touch_entry_budget:
  "map_wf a b m \<Longrightarrow> budget_ok a (touch_entry i now m)"
  by (auto simp: touch_entry_def Let_def budget_ok_def RateLimitInfo_new_def hm_simps
      info_wf_def committed_count_def dest: map_wf_get split: option.splits)

text \<open>The entry after a new reservation, and the four outcomes of a decision.\<close>

abbreviation reserve :: "CandidateTag \<Rightarrow> DateTime \<Rightarrow> RateLimitInfo \<Rightarrow> RateLimitInfo" where
  "reserve c now info \<equiv>
     info\<lparr>candidates := hm_insert c Pending (candidates info), last_candidate_at := now\<rparr>"

abbreviation previous_of :: "RateLimitInfo \<Rightarrow> DateTime option" where
  "previous_of info \<equiv> (if 0 < hm_len (candidates info) then Some (last_candidate_at info) else None)"

lemma budget_ok_reserve:
  assumes "budget_ok a info" "hm_len (candidates info) < unat a" "hm_get (candidates info) c = None"
  shows "budget_ok a (reserve c now info)"
  using assms committed_count_cong [of "reserve c now info" info]
  by (auto simp: budget_ok_def hm_simps)

lemma attempt_status_total: "budget_ok a info \<Longrightarrow> \<exists>s. attempt_status info b p cooldown = Some s"
  using budget_ok_count [of a info] by (auto simp: attempt_status_def)

lemma decide_cases:
  assumes "budget_ok a info"
  obtains (Saturated) n where
      "candidate_count info = Some n" "unat a \<le> hm_len (candidates info)"
      "decide cooldown a c now info = (Rejected (rate_limited cooldown n (last_candidate_at info) now), info)"
    | (Duplicate)
      "hm_len (candidates info) < unat a" "hm_get (candidates info) c = Some Pending"
      "decide cooldown a c now info = (Admitted PendingDuplicate, info)"
    | (Replayed) s where
      "hm_len (candidates info) < unat a" "hm_get (candidates info) c = Some Committed"
      "attempt_status info a None cooldown = Some s"
      "decide cooldown a c now info = (Admitted (Replay s (window_started_at info)), info)"
    | (Fresh) s where
      "hm_len (candidates info) < unat a" "hm_get (candidates info) c = None"
      "attempt_status (reserve c now info) a (previous_of info) cooldown = Some s"
      "decide cooldown a c now info = (Admitted (New s (window_started_at info)), reserve c now info)"
proof -
  obtain n where n: "candidate_count info = Some n" "unat n = hm_len (candidates info)"
    using budget_ok_count [OF assms] by blast
  have le: "a \<le> n \<longleftrightarrow> unat a \<le> hm_len (candidates info)"
    and pos: "0 < n \<longleftrightarrow> 0 < hm_len (candidates info)"
    using n by (simp_all add: word_le_nat_alt word_less_nat_alt)
  show ?thesis
  proof (cases "unat a \<le> hm_len (candidates info)")
    case True
    with n le show ?thesis by (intro Saturated) (simp_all add: decide_def)
  next
    case False
    show ?thesis
    proof (cases "hm_get (candidates info) c")
      case None
      obtain s where "attempt_status (reserve c now info) a (previous_of info) cooldown = Some s"
        using attempt_status_total budget_ok_reserve [OF assms _ None] False by (meson not_le)
      with None False n le pos show ?thesis
        by (intro Fresh) (simp_all add: decide_def Let_def split: if_splits)
    next
      case (Some st)
      obtain s where "attempt_status info a None cooldown = Some s"
        using attempt_status_total [OF assms] by blast
      with Some False n le show ?thesis
        by (cases st) (auto intro: Duplicate Replayed simp: decide_def)
    qed
  qed
qed

text \<open>On a well-formed entry the decision never panics and keeps the budget.\<close>

lemma decide_wf:
  assumes "budget_ok a info" "0 < a"
  shows "info_wf a (snd (decide cooldown a c now info)) \<and> fst (decide cooldown a c now info) \<noteq> AdmitPanic"
proof -
  have pos: "0 < unat a" using assms(2) by (simp add: word_less_nat_alt)
  have some: "hm_get (candidates info) c = Some st \<Longrightarrow> 0 < hm_len (candidates info)" for st
    by (metis gr0I hm_len_0_iff option.distinct(1))
  from assms(1) show ?thesis
  proof (cases rule: decide_cases [where cooldown = cooldown and c = c and now = now])
    case (Fresh s)
    then show ?thesis
      using budget_ok_reserve [OF assms(1) Fresh(1,2)] by (simp add: info_wf_def hm_simps)
  qed (use assms pos some in \<open>auto simp: info_wf_def\<close>)
qed

lemma make_room_wf [wf_intros]:
  "map_wf a b m \<Longrightarrow> map_wf a b (snd (make_room cooldown b i now m))"
  by (simp add: make_room_def Let_def map_wf_retain)

lemma make_room_room:
  "fst (make_room cooldown b i now m) \<Longrightarrow>
     hm_get (snd (make_room cooldown b i now m)) i \<noteq> None \<or>
     hm_len (snd (make_room cooldown b i now m)) < unat b"
  by (auto simp: make_room_def Let_def split: if_splits)

lemma admit_cases:
  obtains (Full) m2 where
      "make_room cooldown b i now (drop_expired cooldown i now m) = (False, m2)"
      "admit cooldown a b i c now m = (Rejected (retry_after_response SERVICE_UNAVAILABLE
         GLOBAL_OVERLOAD_RETRY_AFTER_SECS ''Rate-limit capacity exhausted, retry later''), m2)"
    | (Room) m2 where
      "make_room cooldown b i now (drop_expired cooldown i now m) = (True, m2)"
      "admit cooldown a b i c now m = (fst (decide cooldown a c now (touch_entry i now m2)),
         hm_insert i (snd (decide cooldown a c now (touch_entry i now m2))) m2)"
proof (cases "make_room cooldown b i now (drop_expired cooldown i now m)")
  case (Pair room m2)
  then show ?thesis
    using that by (cases room) (simp_all add: admit_def Let_def split_beta)
qed

lemma admit_wf:
  assumes "map_wf a b m" "0 < a"
  shows "map_wf a b (snd (admit cooldown a b i c now m))"
    and "fst (admit cooldown a b i c now m) \<noteq> AdmitPanic"
proof -
  have wf1: "map_wf a b (drop_expired cooldown i now m)"
    using assms(1) by (rule drop_expired_wf)
  note wf2 = make_room_wf [OF wf1, of cooldown i now]
  show "map_wf a b (snd (admit cooldown a b i c now m))"
  proof (cases rule: admit_cases [of cooldown b i now m a c])
    case (Full m2)
    then show ?thesis using wf2 by simp
  next
    case (Room m2)
    then have "map_wf a b m2" using wf2 by simp
    then show ?thesis
      using Room make_room_room [of cooldown b i now "drop_expired cooldown i now m"]
        decide_wf [OF touch_entry_budget [OF \<open>map_wf a b m2\<close>] assms(2)]
      by (auto intro!: map_wf_insert)
  qed
  show "fst (admit cooldown a b i c now m) \<noteq> AdmitPanic"
  proof (cases rule: admit_cases [of cooldown b i now m a c])
    case (Full m2)
    then show ?thesis by simp
  next
    case (Room m2)
    then have "map_wf a b m2" using wf2 by simp
    then show ?thesis
      using Room decide_wf [OF touch_entry_budget [OF \<open>map_wf a b m2\<close>] assms(2)] by simp
  qed
qed

text \<open>On a well-formed map a failed lookup is finalized by removing the reservation.\<close>

lemma finalize_error_eq:
  assumes "map_wf a b m"
  shows "finalize i c g (Inl e) m = remove_pending i c g m"
proof (cases "hm_get m i")
  case None
  then show ?thesis by (simp add: finalize_def remove_pending_def)
next
  case (Some info)
  then have "0 < hm_len (candidates info)" using map_wf_get [OF assms] by (simp add: info_wf_def)
  with Some show ?thesis by (simp add: finalize_def remove_pending_def Let_def hm_insert_same)
qed

end
