(* ===== verification/Limiter_Spec.thy ===== *)
theory Limiter_Spec
  imports Limiter
begin

text \<open>
  The rate limiter against an ideal one. The code forgets expired entries lazily: when the same
  identifier comes back, when the map is full, in the sweeper and in the snapshot builder. The
  ideal limiter forgets an entry the moment its cooldown has passed and has no expiry code. The
  abstraction is the view of the map at an instant; admission, finalization and removal commute
  with it, and sweeping is invisible. The outcomes of the admission block follow, branch by branch.
\<close>

section \<open>The ideal limiter\<close>

type_synonym ideal_map = "string \<Rightarrow> RateLimitInfo option"

definition active_view :: "TimeDelta \<Rightarrow> DateTime \<Rightarrow> RateLimitMap \<Rightarrow> ideal_map" where
  "active_view cooldown now m id_hash =
     (case hm_get m id_hash of
        Some info \<Rightarrow> if active cooldown now info then Some info else None
      | None \<Rightarrow> None)"

definition count_request :: "DateTime \<Rightarrow> RateLimitInfo \<Rightarrow> RateLimitInfo" where
  "count_request now info =
     info\<lparr>total_requests := saturating_add (total_requests info) 1, last_request_at := now\<rparr>"

definition capacity_response :: Response where
  "capacity_response = retry_after_response SERVICE_UNAVAILABLE GLOBAL_OVERLOAD_RETRY_AFTER_SECS
     ''Rate-limit capacity exhausted, retry later''"

definition ideal_admit ::
  "TimeDelta \<Rightarrow> u8 \<Rightarrow> usize \<Rightarrow> string \<Rightarrow> CandidateTag \<Rightarrow> DateTime \<Rightarrow> ideal_map \<Rightarrow> admit_result \<times> ideal_map" where
  "ideal_admit cooldown max_attempts max_identifiers i c now A =
     (if A i = None \<and> unat max_identifiers \<le> card (dom A) then (Rejected capacity_response, A)
      else
        (let info = (case A i of Some e \<Rightarrow> e | None \<Rightarrow> RateLimitInfo_new now);
             (r, info') = decide cooldown max_attempts c now (count_request now info)
         in (r, A(i \<mapsto> info'))))"

text \<open>The other updates touch one entry: \<open>None\<close> forgets it.\<close>

definition ideal_update :: "(RateLimitInfo \<Rightarrow> RateLimitInfo option) \<Rightarrow> string \<Rightarrow> ideal_map \<Rightarrow> ideal_map" where
  "ideal_update f i A = (case A i of None \<Rightarrow> A | Some info \<Rightarrow> A(i := f info))"

definition drop_reservation :: "CandidateTag \<Rightarrow> DateTime \<Rightarrow> RateLimitInfo \<Rightarrow> RateLimitInfo option" where
  "drop_reservation c g info =
     (if window_started_at info = g \<and> hm_get (candidates info) c = Some Pending
      then (let cs = hm_remove c (candidates info)
            in if hm_len cs = 0 then None else Some (info\<lparr>candidates := cs\<rparr>))
      else Some info)"

definition settle :: "CandidateTag \<Rightarrow> DateTime \<Rightarrow> bool \<Rightarrow> RateLimitInfo \<Rightarrow> RateLimitInfo option" where
  "settle c g miss info =
     Some (if window_started_at info = g \<and> hm_get (candidates info) c = Some Pending
       then info\<lparr>candidates := hm_insert c Committed (candidates info),
                 failed_candidates := (if miss then saturating_add (failed_candidates info) 1
                                       else failed_candidates info)\<rparr>
       else info)"

section \<open>The view\<close>

lemma active_mono: "active cd now' info \<Longrightarrow> now \<le> now' \<Longrightarrow> active cd now info"
  by (simp add: active_def)

lemma active_view_None: "hm_get m i = None \<Longrightarrow> active_view cd now m i = None"
  by (simp add: active_view_def)

lemma active_view_Some:
  "active_view cd now m i = Some info \<longleftrightarrow> hm_get m i = Some info \<and> active cd now info"
  by (auto simp: active_view_def split: option.splits if_splits)

lemma dom_active_view: "dom (active_view cd now m) = hm_keys (hm_retain (active cd now) m)"
  by (auto simp: dom_def active_view_Some hm_keys_get hm_simps split: option.splits if_splits)

lemma card_active_view: "card (dom (active_view cd now m)) = hm_len (hm_retain (active cd now) m)"
  by (simp add: dom_active_view hm_len_keys)

lemma active_view_retain:
  "now' \<le> now \<Longrightarrow> active_view cd now (hm_retain (active cd now') m) = active_view cd now m"
  by (rule ext) (auto simp: active_view_def hm_simps dest: active_mono split: option.splits)

lemma active_view_drop: "active_view cd now (drop_expired cd i now m) = active_view cd now m"
  by (rule ext) (auto simp: active_view_def drop_expired_def active_def hm_simps split: option.splits if_splits)

lemma active_view_insert:
  "active cd now info \<Longrightarrow> active_view cd now (hm_insert i info m) = (active_view cd now m)(i \<mapsto> info)"
  by (rule ext) (simp add: active_view_def hm_simps)

lemma drop_expired_active:
  "hm_get (drop_expired cd i now m) i = Some info \<Longrightarrow> active cd now info"
  by (auto simp: drop_expired_def active_def hm_simps split: option.splits if_splits)

lemma active_view_make_room:
  "active_view cd now (snd (make_room cd b i now m)) = active_view cd now m"
  by (simp add: make_room_def Let_def active_view_retain)

lemma make_room_entry:
  "fst (make_room cd b i now m) \<Longrightarrow> hm_get (snd (make_room cd b i now m)) i = hm_get m i"
  by (auto simp: make_room_def Let_def hm_simps split: if_splits)

text \<open>The capacity check of the code is the check of the ideal limiter on active entries.\<close>

lemma make_room_view:
  assumes "\<And>info. hm_get m i = Some info \<Longrightarrow> active cd now info"
  shows "fst (make_room cd b i now m) \<longleftrightarrow>
    \<not> (active_view cd now m i = None \<and> unat b \<le> card (dom (active_view cd now m)))"
proof -
  have "active_view cd now m i = None \<longleftrightarrow> hm_get m i = None"
    using assms by (auto simp: active_view_def split: option.splits)
  then show ?thesis
    using hm_len_retain_le [of "active cd now" m]
    by (auto simp: make_room_def Let_def card_active_view)
qed

lemma touch_entry_count:
  "touch_entry i now m = count_request now (case hm_get m i of Some e \<Rightarrow> e | None \<Rightarrow> RateLimitInfo_new now)"
  by (simp add: touch_entry_def count_request_def Let_def)

lemma count_request_sel [simp]:
  "candidates (count_request now info) = candidates info"
  "last_candidate_at (count_request now info) = last_candidate_at info"
  "window_started_at (count_request now info) = window_started_at info"
  "failed_candidates (count_request now info) = failed_candidates info"
  "total_requests (count_request now info) = saturating_add (total_requests info) 1"
  "last_request_at (count_request now info) = now"
  by (simp_all add: count_request_def)

lemma decide_last_candidate:
  "last_candidate_at (snd (decide cd a c now info)) = last_candidate_at info \<or>
   last_candidate_at (snd (decide cd a c now info)) = now"
  by (simp add: decide_def Let_def split: option.splits CandidateState.splits)

section \<open>Refinement\<close>

lemma admit_view:
  assumes "0 \<le> cd"
  shows "ideal_admit cd a b i c now (active_view cd now m) =
    (fst (admit cd a b i c now m), active_view cd now (snd (admit cd a b i c now m)))"
proof -
  let ?m1 = "drop_expired cd i now m"
  let ?A = "active_view cd now m"
  have room: "fst (make_room cd b i now ?m1) \<longleftrightarrow> \<not> (?A i = None \<and> unat b \<le> card (dom ?A))"
    using make_room_view [of ?m1 i cd now b] by (simp add: drop_expired_active active_view_drop)
  have view2: "active_view cd now (snd (make_room cd b i now ?m1)) = ?A"
    by (simp add: active_view_make_room active_view_drop)
  show ?thesis
  proof (cases rule: admit_cases [of cd b i now m a c])
    case (Full m2)
    then show ?thesis
      using room view2 by (simp add: ideal_admit_def capacity_response_def)
  next
    case (Room m2)
    let ?e = "case ?A i of Some e \<Rightarrow> e | None \<Rightarrow> RateLimitInfo_new now"
    have get: "hm_get m2 i = ?A i"
    proof -
      have "hm_get m2 i = hm_get ?m1 i" using Room(1) make_room_entry [of cd b i now ?m1] by simp
      also have "\<dots> = ?A i"
        using drop_expired_active [of cd i now m]
        by (auto simp: active_view_drop [symmetric, of cd now m i] active_view_def split: option.splits)
      finally show ?thesis .
    qed
    let ?d = "decide cd a c now (count_request now ?e)"
    have e: "touch_entry i now m2 = count_request now ?e" by (simp add: touch_entry_count get)
    have "active cd now ?e"
      using assms by (auto simp: active_def active_view_def RateLimitInfo_new_def split: option.splits)
    then have "active cd now (snd ?d)"
      using decide_last_candidate [of cd a c now "count_request now ?e"] assms by (auto simp: active_def)
    then show ?thesis
      using Room room view2 e
      by (auto simp: ideal_admit_def Let_def active_view_insert split_beta)
  qed
qed

lemma view_update:
  assumes "\<And>k. k \<noteq> i \<Longrightarrow> hm_get m' k = hm_get m k"
    and "hm_get m' i = (case hm_get m i of None \<Rightarrow> None | Some info \<Rightarrow> f info)"
    and "\<And>info info'. hm_get m i = Some info \<Longrightarrow> f info = Some info' \<Longrightarrow>
      last_candidate_at info' = last_candidate_at info"
  shows "active_view cd now m' = ideal_update f i (active_view cd now m)"
proof (rule ext)
  fix k
  show "active_view cd now m' k = ideal_update f i (active_view cd now m) k"
  proof (cases "k = i")
    case False
    then show ?thesis using assms(1) by (simp add: ideal_update_def active_view_def split: option.splits)
  next
    case True
    show ?thesis
    proof (cases "hm_get m i")
      case None
      then show ?thesis using True assms(2) by (simp add: ideal_update_def active_view_def)
    next
      case (Some info)
      then show ?thesis
        using True assms(2) assms(3) [OF Some]
        by (cases "f info") (auto simp: ideal_update_def active_view_def active_def)
    qed
  qed
qed

lemma finalize_answer_view:
  "active_view cd now (finalize i c g (Inr r) m) = ideal_update (settle c g (r = None)) i (active_view cd now m)"
  by (rule view_update)
    (auto simp: finalize_def settle_def hm_simps split: option.splits)

lemma remove_pending_view:
  assumes "map_wf a b m"
  shows "active_view cd now (remove_pending i c g m) = ideal_update (drop_reservation c g) i (active_view cd now m)"
proof (rule view_update)
  show "hm_get (remove_pending i c g m) k = hm_get m k" if "k \<noteq> i" for k
    using that by (auto simp: remove_pending_def Let_def hm_simps split: option.splits)
  show "hm_get (remove_pending i c g m) i = (case hm_get m i of None \<Rightarrow> None | Some info \<Rightarrow> drop_reservation c g info)"
    using map_wf_get [OF assms, of i]
    by (cases "hm_get m i")
      (auto simp: remove_pending_def drop_reservation_def Let_def hm_simps info_wf_def)
qed (auto simp: drop_reservation_def Let_def split: if_splits)

section \<open>The branches of the admission block\<close>

text \<open>An identifier with an active entry: no expiry, no capacity check.\<close>

lemma admit_present:
  assumes "hm_get m i = Some info" "active cd now info"
  shows "admit cd a b i c now m =
    (fst (decide cd a c now (count_request now info)), hm_insert i (snd (decide cd a c now (count_request now info))) m)"
  using assms
  by (simp add: admit_def drop_expired_def make_room_def active_def touch_entry_count Let_def split_beta)

lemma candidate_count_small:
  "hm_len (candidates info) < 256 \<Longrightarrow> candidate_count info = Some (of_nat (hm_len (candidates info)))"
  by (simp add: candidate_count_def try_into_u8_def)

lemma u8_le_iff: "n < 256 \<Longrightarrow> (a :: u8) \<le> of_nat n \<longleftrightarrow> unat a \<le> n"
  by (simp add: word_le_nat_alt unat_of_nat)

lemma u8_pos_iff: "n < 256 \<Longrightarrow> (0 :: u8) < of_nat n \<longleftrightarrow> 0 < n"
  by (simp add: word_less_nat_alt unat_of_nat)

text \<open>The status a request is answered with, from the entry after it.\<close>

definition status_of :: "RateLimitInfo \<Rightarrow> u8 \<Rightarrow> DateTime option \<Rightarrow> TimeDelta \<Rightarrow> AttemptStatus" where
  "status_of info a previous cd =
     \<lparr>as_version = 1, as_total_attempts = of_nat (hm_len (candidates info)),
      as_failed_attempts = failed_candidates info,
      as_remaining_attempts = a - of_nat (hm_len (candidates info)),
      as_total_requests = total_requests info, as_window_started_at = window_started_at info,
      as_previous_attempt_at = previous, as_resets_at = last_candidate_at info + cd\<rparr>"

lemma attempt_status_of:
  "hm_len (candidates info) \<le> unat a \<Longrightarrow> attempt_status info a previous cd = Some (status_of info a previous cd)"
  using unat_less_256 [of a]
  by (simp add: attempt_status_def candidate_count_small status_of_def saturating_sub_def word_le_nat_alt unat_of_nat)

text \<open>A concrete map for the witnesses: one committed and one pending candidate.\<close>

definition sample_info :: RateLimitInfo where
  "sample_info =
     \<lparr>window_started_at = 0, last_candidate_at = 0, last_request_at = 0,
      candidates = hm_insert ''tag1'' Committed (hm_insert ''tag2'' Pending fmempty),
      failed_candidates = 1, total_requests = 2\<rparr>"

definition sample_map :: RateLimitMap where
  "sample_map = hm_insert ''id'' sample_info fmempty"

lemma sample_facts:
  "hm_get sample_map ''id'' = Some sample_info" "active nanos_per_minute 5 sample_info"
  "hm_len (candidates sample_info) = 2" "hm_get (candidates sample_info) ''tag1'' = Some Committed"
  "hm_get (candidates sample_info) ''tag2'' = Some Pending" "hm_get (candidates sample_info) ''tag3'' = None"
  "window_started_at sample_info = 0" "last_candidate_at sample_info = 0"
  by (simp_all add: sample_map_def sample_info_def hm_simps active_def)

lemma sample_wf: "map_wf 3 2 sample_map"
proof -
  let ?base = "sample_info\<lparr>candidates := hm_insert ''tag1'' Pending (hm_insert ''tag2'' Pending fmempty)\<rparr>"
  have "committed_count (?base\<lparr>candidates := hm_insert ''tag1'' Committed (candidates ?base)\<rparr>)
      = Suc (committed_count ?base)"
    by (rule committed_count_commit) (simp add: hm_simps)
  then have "1 \<le> committed_count sample_info" by (simp add: sample_info_def)
  then have "info_wf 3 sample_info"
    by (simp add: info_wf_def budget_ok_def sample_facts) (simp add: sample_info_def)
  then show ?thesis by (simp add: map_wf_def sample_map_def hm_simps)
qed

text \<open>
  C13. The limiter refines the ideal one: on the view of the map at the time of the call, the
  admission block, with all its lazy expiry and its capacity check, is the admission of a limiter
  that forgets each identifier the instant its cooldown has passed. Response and new state agree.
\<close>

theorem admit_refines_ideal:
  assumes "0 \<le> cd"
  shows "ideal_admit cd a b i c now (active_view cd now m) =
    (fst (admit cd a b i c now m), active_view cd now (snd (admit cd a b i c now m)))"
  using assms by (rule admit_view)

theorem admit_refines_ideal_witness:
  "ideal_admit nanos_per_minute 3 2 ''id'' ''tag3'' 5 (active_view nanos_per_minute 5 sample_map) =
    (fst (admit nanos_per_minute 3 2 ''id'' ''tag3'' 5 sample_map),
     active_view nanos_per_minute 5 (snd (admit nanos_per_minute 3 2 ''id'' ''tag3'' 5 sample_map)))"
  by (rule admit_refines_ideal) simp

text \<open>
  C14. Finalization and removal refine the ideal updates of one entry: an answered lookup turns a
  \<open>Pending\<close> candidate of the same window into a \<open>Committed\<close> one and counts a miss; a failed one, or
  a removal, frees the slot and forgets the entry when no candidate is left; a stale window or a
  candidate that is not \<open>Pending\<close> changes nothing.
\<close>

theorem finalize_refines_ideal:
  assumes "map_wf a b m"
  shows "active_view cd now (finalize i c g r m) =
    ideal_update (case r of Inl _ \<Rightarrow> drop_reservation c g | Inr found \<Rightarrow> settle c g (found = None)) i
      (active_view cd now m) \<and>
    active_view cd now (remove_pending i c g m) = ideal_update (drop_reservation c g) i (active_view cd now m)"
  by (cases r)
    (simp_all add: finalize_answer_view finalize_error_eq [OF assms] remove_pending_view [OF assms])

theorem finalize_refines_ideal_witness:
  "active_view nanos_per_minute 5 (finalize ''id'' ''tag2'' 0 (Inr None) sample_map) =
    ideal_update (settle ''tag2'' 0 True) ''id'' (active_view nanos_per_minute 5 sample_map)"
  using finalize_refines_ideal [OF sample_wf, of nanos_per_minute 5 "''id''" "''tag2''" 0 "Inr None"] by simp

text \<open>
  Sweeping is invisible and complete: removing the entries expired at an earlier instant
  changes nothing that a later request can see, and leaves no entry that was expired then.
\<close>

lemma sweep_invisible:
  assumes "before \<le> now"
  shows "active_view cd now (sweep_expired_identifiers cd before m) = active_view cd now m \<and>
    hm_keys (sweep_expired_identifiers cd before m) = {i. active_view cd before m i \<noteq> None}"
  using assms
  by (auto simp: sweep_expired_identifiers_def active_view_retain hm_keys_get active_view_def hm_simps
      split: option.splits if_splits)

text \<open>
  C5. Saturation is not an oracle: once the budget of an identifier is used up, every candidate,
  new, pending or committed, gets the same \<open>429\<close> and leaves the same map, in which only the
  request counter and the time of the last request of that identifier moved.
\<close>

theorem saturation_is_blind:
  assumes "hm_get m i = Some info" "active cd now info"
    and "unat a \<le> hm_len (candidates info)" "hm_len (candidates info) < 256"
  shows "admit cd a b i c now m =
    (Rejected (rate_limited cd (of_nat (hm_len (candidates info))) (last_candidate_at info) now),
     hm_insert i (count_request now info) m)"
  using assms
  by (simp add: admit_present decide_def candidate_count_small u8_le_iff)

theorem saturation_is_blind_witness:
  "admit nanos_per_minute 2 2 ''id'' ''tag3'' 5 sample_map =
    (Rejected (rate_limited nanos_per_minute 2 0 5), hm_insert ''id'' (count_request 5 sample_info) sample_map)"
  using saturation_is_blind [OF sample_facts(1,2), of 2 2 "''tag3''"] by (simp add: sample_facts)

text \<open>
  C28. Before saturation a known candidate costs nothing: a replay of a committed one is admitted
  and told the unchanged counters, a duplicate of one still being looked up is turned away, and
  either takes no slot and moves neither the window nor the cooldown; only the request is counted.
\<close>

theorem known_candidate_is_free:
  assumes "hm_get m i = Some info" "active cd now info"
    and "hm_len (candidates info) < unat a" "hm_get (candidates info) c = Some state"
  shows "admit cd a b i c now m =
    (case state of
       Committed \<Rightarrow> Admitted (Replay (status_of (count_request now info) a None cd) (window_started_at info))
     | Pending \<Rightarrow> Admitted PendingDuplicate,
     hm_insert i (count_request now info) m)"
proof -
  have "hm_len (candidates info) < 256" using assms(3) unat_less_256 [of a] by simp
  then show ?thesis
    using assms
    by (cases state) (simp_all add: admit_present decide_def candidate_count_small u8_le_iff attempt_status_of)
qed

theorem known_candidate_is_free_witness:
  "admit nanos_per_minute 3 2 ''id'' ''tag1'' 5 sample_map =
     (Admitted (Replay (status_of (count_request 5 sample_info) 3 None nanos_per_minute) 0),
      hm_insert ''id'' (count_request 5 sample_info) sample_map) \<and>
   admit nanos_per_minute 3 2 ''id'' ''tag2'' 5 sample_map =
     (Admitted PendingDuplicate, hm_insert ''id'' (count_request 5 sample_info) sample_map)"
  using known_candidate_is_free [OF sample_facts(1,2), of 3 "''tag1''" Committed]
    known_candidate_is_free [OF sample_facts(1,2), of 3 "''tag2''" Pending]
  by (simp add: sample_facts)

text \<open>
  C29. A new candidate within the budget takes exactly one slot at once, restarts the cooldown, and
  is told the counters that include itself and the time of the attempt before it.
\<close>

theorem new_candidate_reserves:
  assumes "hm_get m i = Some info" "active cd now info" "0 < hm_len (candidates info)"
    and "hm_len (candidates info) < unat a" "hm_get (candidates info) c = None"
  shows "admit cd a b i c now m =
    (Admitted (New (status_of (reserve c now (count_request now info)) a (Some (last_candidate_at info)) cd)
       (window_started_at info)),
     hm_insert i (reserve c now (count_request now info)) m)"
proof -
  have small: "hm_len (candidates info) < 256" using assms(4) unat_less_256 [of a] by simp
  have "attempt_status (reserve c now (count_request now info)) a p cd =
      Some (status_of (reserve c now (count_request now info)) a p cd)" for p
    using assms(4,5) by (intro attempt_status_of) (simp add: hm_simps)
  then show ?thesis
    using assms small
    by (simp add: admit_present decide_def candidate_count_small u8_le_iff u8_pos_iff Let_def)
qed

theorem new_candidate_reserves_witness:
  "hm_len (candidates (reserve ''tag3'' 5 (count_request 5 sample_info))) = 3 \<and>
   admit nanos_per_minute 3 2 ''id'' ''tag3'' 5 sample_map =
    (Admitted (New (status_of (reserve ''tag3'' 5 (count_request 5 sample_info)) 3 (Some 0) nanos_per_minute) 0),
     hm_insert ''id'' (reserve ''tag3'' 5 (count_request 5 sample_info)) sample_map)"
  using new_candidate_reserves [OF sample_facts(1,2), of 3 "''tag3''"]
  by (simp add: sample_facts) (simp add: sample_info_def hm_simps)

text \<open>
  C30. An identifier without an active entry is admitted exactly when fewer than
  \<open>rate_limit_max_identifiers\<close> identifiers are active; its first candidate opens a window at the
  time of the request. Otherwise the answer is a \<open>503\<close> and no active entry is lost or gained.
\<close>

theorem capacity_decides_new_identifiers:
  assumes "0 \<le> cd" "0 < a" "active_view cd now m i = None"
  shows "if card (dom (active_view cd now m)) < unat b
    then fst (admit cd a b i c now m) =
        Admitted (New (status_of (reserve c now (count_request now (RateLimitInfo_new now))) a None cd) now) \<and>
      active_view cd now (snd (admit cd a b i c now m)) =
        (active_view cd now m)(i \<mapsto> reserve c now (count_request now (RateLimitInfo_new now)))
    else fst (admit cd a b i c now m) = Rejected capacity_response \<and>
      active_view cd now (snd (admit cd a b i c now m)) = active_view cd now m"
proof -
  let ?e = "count_request now (RateLimitInfo_new now)"
  have e: "hm_len (candidates ?e) = 0" "hm_get (candidates ?e) c = None" "window_started_at ?e = now"
    by (simp_all add: RateLimitInfo_new_def hm_simps)
  have pos: "\<not> a \<le> 0" "1 \<le> unat a" using assms(2) by (simp_all add: word_gt_0 unat_gt_0 Suc_le_eq)
  have "attempt_status (reserve c now ?e) a None cd = Some (status_of (reserve c now ?e) a None cd)"
    using pos e by (intro attempt_status_of) (simp add: hm_simps)
  then have "decide cd a c now ?e =
      (Admitted (New (status_of (reserve c now ?e) a None cd) now), reserve c now ?e)"
    using pos e by (simp add: decide_def candidate_count_small Let_def)
  then show ?thesis
    using admit_view [OF assms(1), of a b i c now m] assms(3) by (auto simp: ideal_admit_def Let_def)
qed

theorem capacity_decides_new_identifiers_witness:
  "fst (admit nanos_per_minute 3 1 ''other'' ''tag'' 5 sample_map) = Rejected capacity_response"
proof -
  have "dom (active_view nanos_per_minute 5 sample_map) = {''id''}"
    by (auto simp: dom_active_view hm_keys_get hm_simps sample_map_def sample_facts split: if_splits)
  then show ?thesis
    using capacity_decides_new_identifiers [of nanos_per_minute 3 5 sample_map "''other''" 1 "''tag''"]
    by (simp add: active_view_def sample_map_def hm_simps)
qed

text \<open>
  Identifiers keep independent budgets: no operation on one identifier changes what another
  one's requests will see.
\<close>

lemma identifiers_independent:
  assumes "k \<noteq> i" "0 \<le> cd"
  shows "active_view cd now (snd (admit cd a b i c now m)) k = active_view cd now m k \<and>
    hm_get (finalize i c g r m) k = hm_get m k \<and> hm_get (remove_pending i c g m) k = hm_get m k"
proof -
  have "snd (ideal_admit cd a b i c now A) k = A k" for A
    using assms(1) by (simp add: ideal_admit_def Let_def split_beta)
  from this [of "active_view cd now m"] have "active_view cd now (snd (admit cd a b i c now m)) k = active_view cd now m k"
    using admit_view [OF assms(2), of a b i c now m] by simp
  then show ?thesis
    using assms(1)
    by (auto simp: finalize_def remove_pending_def Let_def hm_simps split: option.splits sum.splits)
qed

text \<open>
  Finalization is idempotent: once a ticket has been finalized or removed, finalizing it again,
  with whatever result, changes nothing. A miss is counted once.
\<close>

lemma finalize_idempotent: "finalize i c g r' (finalize i c g r m) = finalize i c g r m"
proof (cases "hm_get m i")
  case None
  then show ?thesis by (simp add: finalize_def)
next
  case (Some info)
  show ?thesis
  proof (cases "window_started_at info = g \<and> hm_get (candidates info) c = Some Pending")
    case False
    then show ?thesis using Some by (auto simp: finalize_def)
  next
    case True
    then show ?thesis
      using Some by (auto simp: finalize_def Let_def hm_simps split: sum.splits option.splits)
  qed
qed

text \<open>
  A reservation that is given back leaves the budget as it was: after an admission and the
  removal of its reservation the candidates are those before, and an identifier that was unknown
  is unknown again. For a known one the request stays counted and the cooldown stays restarted.
\<close>

lemma refund_restores_budget:
  assumes "map_wf a b m" "0 < a" "0 \<le> cd" "admit cd a b i c now m = (Admitted (New s g), m')"
  shows "active_view cd now (remove_pending i c g m') =
    (active_view cd now m)(i := (case active_view cd now m i of
        None \<Rightarrow> None
      | Some info \<Rightarrow> Some ((count_request now info)\<lparr>last_candidate_at := now\<rparr>)))"
proof -
  let ?A = "active_view cd now m"
  let ?e = "count_request now (case ?A i of Some e \<Rightarrow> e | None \<Rightarrow> RateLimitInfo_new now)"
  have wf': "map_wf a b m'" using admit_wf(1) [OF assms(1,2), of cd i c now] assms(4) by simp
  have A: "ideal_admit cd a b i c now ?A = (Admitted (New s g), active_view cd now m')"
    using admit_view [OF assms(3), of a b i c now m] assms(4) by simp
  have be: "budget_ok a ?e"
    using map_wf_get [OF assms(1), of i]
    by (auto simp: active_view_def RateLimitInfo_new_def info_wf_def budget_ok_def committed_count_def hm_simps
        split: option.splits)
  have view: "active_view cd now m' = ?A(i \<mapsto> snd (decide cd a c now ?e))"
    and new: "fst (decide cd a c now ?e) = Admitted (New s g)"
    using A by (auto simp: ideal_admit_def Let_def split_beta split: if_splits)
  from be have d: "snd (decide cd a c now ?e) = reserve c now ?e \<and> window_started_at ?e = g \<and>
      hm_get (candidates ?e) c = None"
    by (cases rule: decide_cases [where cooldown = cd and c = c and now = now]) (use new in auto)
  have pos: "?A i = Some info \<Longrightarrow> hm_len (candidates info) \<noteq> 0" for info
    using map_wf_get [OF assms(1), of i info] by (simp add: active_view_Some info_wf_def)
  have "ideal_update (drop_reservation c g) i (?A(i \<mapsto> reserve c now ?e)) = ?A(i := (case ?A i of
        None \<Rightarrow> None
      | Some info \<Rightarrow> Some ((count_request now info)\<lparr>last_candidate_at := now\<rparr>)))"
    using d pos
    by (cases "?A i")
      (auto simp: ideal_update_def drop_reservation_def Let_def hm_simps hm_remove_insert_absent hm_remove_absent
        RateLimitInfo_new_def count_request_def)
  then show ?thesis using remove_pending_view [OF wf', of cd now i c g] view d by simp
qed



text \<open>
  The counters a client is shown add up: in the status of every admitted request the attempts
  made and the attempts left sum to the budget, and no more failures than attempts are reported.
\<close>

lemma status_adds_up:
  assumes "map_wf a b m" "0 < a" "admit cd a b i c now m = (Admitted adm, m')"
    and "adm = New s g \<or> adm = Replay s g"
  shows "unat (as_total_attempts s) + unat (as_remaining_attempts s) = unat a \<and>
    0 < as_total_attempts s \<and> as_failed_attempts s \<le> as_total_attempts s"
proof -
  define m2 where "m2 = snd (make_room cd b i now (drop_expired cd i now m))"
  have wf2: "map_wf a b m2" unfolding m2_def by (intro wf_intros assms(1))
  let ?e = "touch_entry i now m2"
  have be: "budget_ok a ?e" using wf2 by (rule touch_entry_budget)
  have d: "fst (decide cd a c now ?e) = Admitted adm"
    using assms(3) by (cases rule: admit_cases [of cd b i now m a c]) (auto simp: m2_def)
  have status: "unat (as_total_attempts s) + unat (as_remaining_attempts s) = unat a \<and>
      0 < as_total_attempts s \<and> as_failed_attempts s \<le> as_total_attempts s"
    if "attempt_status info a p cd = Some s" "budget_ok a info" "0 < hm_len (candidates info)" for info p
  proof -
    have le: "hm_len (candidates info) \<le> unat a" "unat (failed_candidates info) \<le> hm_len (candidates info)"
      using that(2) card_mono [OF finite_hm_keys, of "{k \<in> hm_keys (candidates info). hm_get (candidates info) k = Some Committed}" "candidates info"]
      by (auto simp: budget_ok_def committed_count_def hm_len_keys)
    have "s = status_of info a p cd" using that(1) attempt_status_of [OF le(1)] by simp
    then show ?thesis
      using le that(3) unat_less_256 [of a]
      by (simp add: status_of_def word_le_nat_alt word_less_nat_alt unat_sub unat_of_nat)
  qed
  from be show ?thesis
  proof (cases rule: decide_cases [where cooldown = cd and c = c and now = now])
    case (Replayed s')
    then have "0 < hm_len (candidates ?e)" by (metis gr0I hm_len_0_iff option.distinct(1))
    then show ?thesis using Replayed d assms(4) status be by auto
  next
    case (Fresh s')
    then have "s' = s" using d assms(4) by auto
    with Fresh(3) have "attempt_status (reserve c now ?e) a (previous_of ?e) cd = Some s" by simp
    then show ?thesis
      using status [OF _ budget_ok_reserve [OF be Fresh(1,2), of now]] Fresh(2) by (simp add: hm_simps)
  qed (use d assms(4) in auto)
qed

end
