(* ===== verification/F64.thy ===== *)
theory F64
  imports Prelude "HOL-Library.Log_Nat"
begin

text \<open>
  Rust's \<open>f64\<close>, as far as the token buckets use it: finite binary64 values are rationals and
  every arithmetic operation is the exact result rounded to nearest, ties to even, with
  53 bits of precision and gradual underflow at \<open>2 ^ -1074\<close>. Magnitudes past the largest
  finite value are kept as rationals instead of becoming infinite: the only operation of the
  server that could overflow feeds \<open>min\<close> with a finite capacity, where both give the capacity.
  The datatype \<open>f64_class\<close> adds the infinities and NaN for the configuration checks.
\<close>

type_synonym f64 = rat

definition round_half_even :: "rat \<Rightarrow> int" where
  "round_half_even x =
     (let f = \<lfloor>x\<rfloor>; d = x - of_int f
      in if d < 1 / 2 then f else if 1 / 2 < d then f + 1 else if even f then f else f + 1)"

text \<open>The exponent of the binade that holds a positive rational.\<close>

definition ilog2 :: "rat \<Rightarrow> int" where
  "ilog2 x =
     (let (p, q) = quotient_of x; e = bitlen p - bitlen q
      in if 2 powi e \<le> x then e else e - 1)"

definition f64_ulp :: "rat \<Rightarrow> rat" where
  "f64_ulp x = 2 powi (max (ilog2 x) (- 1022) - 52)"

definition f64_round :: "rat \<Rightarrow> f64" where
  "f64_round x =
     (if x = 0 then 0 else of_int (round_half_even (x / f64_ulp \<bar>x\<bar>)) * f64_ulp \<bar>x\<bar>)"

definition f64_add :: "f64 \<Rightarrow> f64 \<Rightarrow> f64" where
  "f64_add x y = f64_round (x + y)"

definition f64_sub :: "f64 \<Rightarrow> f64 \<Rightarrow> f64" where
  "f64_sub x y = f64_round (x - y)"

definition f64_mul :: "f64 \<Rightarrow> f64 \<Rightarrow> f64" where
  "f64_mul x y = f64_round (x * y)"

text \<open>The unit roundoff and half the smallest subnormal: the two parts of the rounding error.\<close>

definition f64_eps :: rat where
  "f64_eps = 2 powi (- 53)"

definition f64_tiny :: rat where
  "f64_tiny = 2 powi (- 1075)"

section \<open>Rounding error\<close>

lemma round_half_even_error: "\<bar>of_int (round_half_even x) - x\<bar> \<le> 1 / 2"
proof -
  have "of_int \<lfloor>x\<rfloor> \<le> x" "x < of_int \<lfloor>x\<rfloor> + 1" by linarith+
  then show ?thesis
    by (simp add: round_half_even_def Let_def abs_le_iff; linarith)
qed

lemma round_half_even_of_int [simp]: "round_half_even (of_int n) = n"
  by (simp add: round_half_even_def)

lemma round_half_even_nonneg: "0 \<le> x \<Longrightarrow> 0 \<le> round_half_even x"
  by (auto simp: round_half_even_def Let_def)

lemma bitlen_powi_bounds:
  assumes "0 < n"
  shows "(2::rat) powi (bitlen n - 1) \<le> of_int n" and "(of_int n::rat) < 2 powi bitlen n"
proof -
  have b: "2 ^ nat (bitlen n - 1) \<le> n" "n < 2 ^ nat (bitlen n)"
    using bitlen_bounds [OF assms] by auto
  have pos: "1 \<le> bitlen n" using assms by (metis bitlen_eq_zero_iff bitlen_nonneg int_one_le_iff_zero_less linorder_not_le order_antisym_conv zero_less_iff_neq_zero not_le)
  have "(2::rat) powi (bitlen n - 1) = of_int (2 ^ nat (bitlen n - 1))"
    using pos by (simp add: power_int_def)
  also have "\<dots> \<le> of_int n" using b(1) by (simp only: of_int_le_iff)
  finally show "(2::rat) powi (bitlen n - 1) \<le> of_int n" .
  have "(of_int n::rat) < of_int (2 ^ nat (bitlen n))" using b(2) by (simp only: of_int_less_iff)
  also have "\<dots> = 2 powi bitlen n" using pos by (simp add: power_int_def)
  finally show "(of_int n::rat) < 2 powi bitlen n" .
qed

lemma ilog2_bounds:
  assumes "0 < x"
  shows "2 powi ilog2 x \<le> x" and "x < 2 powi (ilog2 x + 1)"
proof -
  obtain p q where pq: "quotient_of x = (p, q)" by (cases "quotient_of x")
  have q: "0 < q" using quotient_of_denom_pos [OF pq] .
  have x: "x = of_int p / of_int q" using quotient_of_div [OF pq] .
  have p: "0 < p" using assms q by (simp add: x zero_less_divide_iff)
  note bp = bitlen_powi_bounds [OF p] and bq = bitlen_powi_bounds [OF q]
  let ?e = "bitlen p - bitlen q"
  have "2 powi (?e - 1) = (2::rat) powi (bitlen p - 1) / 2 powi bitlen q"
    by (simp add: power_int_diff [symmetric] algebra_simps)
  also have "\<dots> \<le> of_int p / of_int q"
    using bp(1) bq(2) p q by (intro frac_le) auto
  finally have lo: "2 powi (?e - 1) \<le> x" by (simp add: x)
  have "of_int p / of_int q < (2::rat) powi bitlen p / 2 powi (bitlen q - 1)"
    using bp(2) bq(1) p by (intro frac_less) auto
  also have "\<dots> = 2 powi (?e + 1)"
    by (simp add: power_int_diff [symmetric] algebra_simps)
  finally have hi: "x < 2 powi (?e + 1)" by (simp add: x)
  show "2 powi ilog2 x \<le> x" "x < 2 powi (ilog2 x + 1)"
    using lo hi by (auto simp: ilog2_def pq Let_def)
qed

lemma f64_ulp_pos [simp]: "0 < f64_ulp x"
  by (simp add: f64_ulp_def)

lemma f64_ulp_le:
  assumes "0 < x"
  shows "f64_ulp x / 2 \<le> x * f64_eps + f64_tiny"
proof (cases "- 1022 \<le> ilog2 x")
  case True
  have "f64_ulp x / 2 = 2 powi ilog2 x * f64_eps"
    using True by (simp add: f64_ulp_def f64_eps_def max_absorb1 power_int_add [symmetric] power_int_diff)
  also have "\<dots> \<le> x * f64_eps"
    using ilog2_bounds(1) [OF assms] by (simp add: f64_eps_def)
  finally show ?thesis by (simp add: f64_tiny_def add_increasing2)
next
  case False
  then have "f64_ulp x / 2 = f64_tiny"
    by (simp add: f64_ulp_def f64_tiny_def max_absorb2 power_int_diff)
  then show ?thesis using assms by (simp add: f64_eps_def)
qed

lemma f64_round_0 [simp]: "f64_round 0 = 0"
  by (simp add: f64_round_def)

lemma f64_round_nonneg: "0 \<le> x \<Longrightarrow> 0 \<le> f64_round x"
  by (auto simp: f64_round_def less_imp_le
    intro!: mult_nonneg_nonneg round_half_even_nonneg divide_nonneg_pos)

lemma f64_round_error:
  assumes "0 \<le> x"
  shows "\<bar>f64_round x - x\<bar> \<le> x * f64_eps + f64_tiny"
proof (cases "x = 0")
  case True
  then show ?thesis by (simp add: f64_tiny_def)
next
  case False
  with assms have pos: "0 < x" by simp
  let ?u = "f64_ulp x" and ?k = "of_int (round_half_even (x / f64_ulp x)) :: rat"
  have u: "0 < ?u" by simp
  have "f64_round x - x = (?k - x / ?u) * ?u"
    using pos u by (simp add: f64_round_def left_diff_distrib less_imp_neq [symmetric])
  then have "\<bar>f64_round x - x\<bar> = \<bar>?k - x / ?u\<bar> * ?u"
    using u by (simp only: abs_mult abs_of_pos)
  also have "\<dots> \<le> 1 / 2 * ?u"
    using round_half_even_error by (intro mult_right_mono) (auto simp: less_imp_le)
  also have "\<dots> \<le> x * f64_eps + f64_tiny"
    using f64_ulp_le [OF pos] by simp
  finally show ?thesis .
qed

lemma f64_round_upper: "0 \<le> x \<Longrightarrow> f64_round x \<le> x * (1 + f64_eps) + f64_tiny"
  using f64_round_error [of x] by (simp add: abs_le_iff algebra_simps)

lemma f64_round_lower: "0 \<le> x \<Longrightarrow> x * (1 - f64_eps) - f64_tiny \<le> f64_round x"
  using f64_round_error [of x] by (simp add: abs_le_iff algebra_simps)

lemma f64_eps_pos: "0 < f64_eps" and f64_eps_le: "f64_eps \<le> 1 / 9007199254740992"
  and f64_tiny_pos: "0 < f64_tiny" and f64_tiny_le: "f64_tiny \<le> f64_eps"
  by (simp_all add: f64_eps_def f64_tiny_def power_int_minus)

section \<open>Representable values and monotonicity\<close>

text \<open>A rational is a binary64 value when rounding leaves it alone.\<close>

definition representable :: "rat \<Rightarrow> bool" where
  "representable x \<longleftrightarrow> f64_round x = x"

definition ulp_exp :: "rat \<Rightarrow> int" where
  "ulp_exp x = max (ilog2 x) (- 1022) - 52"

lemma f64_ulp_exp: "f64_ulp x = 2 powi ulp_exp x"
  by (simp add: f64_ulp_def ulp_exp_def)

lemma powi_le_imp: "(2::rat) powi a < 2 powi b \<Longrightarrow> a < b"
  by (meson linorder_not_le one_le_numeral power_int_increasing)

lemma ilog2_less: "0 < x \<Longrightarrow> x < 2 powi e \<Longrightarrow> ilog2 x < e"
  using ilog2_bounds(1) [of x] by (intro powi_le_imp) simp

lemma ilog2_mono: "0 < x \<Longrightarrow> x \<le> y \<Longrightarrow> ilog2 x \<le> ilog2 y"
  using ilog2_bounds(1) [of x] ilog2_bounds(2) [of y] powi_le_imp [of "ilog2 x" "ilog2 y + 1"]
  by simp

lemma round_half_even_mono: "x \<le> y \<Longrightarrow> round_half_even x \<le> round_half_even y"
proof -
  assume "x \<le> y"
  then consider "\<lfloor>x\<rfloor> = \<lfloor>y\<rfloor>" | "\<lfloor>x\<rfloor> + 1 \<le> \<lfloor>y\<rfloor>"
    using floor_mono [of x y] by linarith
  then show ?thesis
    using \<open>x \<le> y\<close> by cases (auto simp: round_half_even_def Let_def)
qed

lemma scaled_quotient_le:
  assumes "0 < x"
  shows "x / f64_ulp x \<le> 2 ^ 53"
proof -
  have "x \<le> 2 powi (max (ilog2 x) (- 1022) + 1)"
    using ilog2_bounds(2) [OF assms]
    by (rule less_imp_le [OF less_le_trans]) (simp add: power_int_increasing)
  also have "\<dots> = 2 powi (ulp_exp x + 53)" by (simp add: ulp_exp_def add.commute)
  also have "\<dots> = 2 ^ 53 * f64_ulp x" by (simp add: f64_ulp_exp power_int_add)
  finally show ?thesis by (simp add: divide_le_eq)
qed

lemma representable_scaled:
  assumes "0 \<le> k" "k < 2 ^ 53" "- 1074 \<le> q"
  shows "representable (of_int k * 2 powi q)"
proof (cases "k = 0")
  case False
  let ?x = "of_int k * 2 powi q :: rat"
  have pos: "0 < ?x" using False assms(1) by simp
  have "(of_int k :: rat) < of_int (2 ^ 53)" using assms(2) by (simp only: of_int_less_iff)
  then have "?x < of_int (2 ^ 53) * 2 powi q" by (rule mult_strict_right_mono) simp
  also have "\<dots> = 2 powi (q + 53)" by (simp add: power_int_add)
  finally have "ilog2 ?x < q + 53" by (rule ilog2_less [OF pos])
  then have e: "ulp_exp ?x \<le> q" using assms(3) by (simp add: ulp_exp_def)
  have "?x / f64_ulp ?x = of_int k * 2 powi (q - ulp_exp ?x)"
    by (simp add: f64_ulp_exp power_int_diff)
  also have "\<dots> = of_int (k * 2 ^ nat (q - ulp_exp ?x))"
    using e by (simp add: power_int_def)
  finally have "of_int (round_half_even (?x / f64_ulp ?x)) = ?x / f64_ulp ?x"
    by (simp only: round_half_even_of_int)
  then show ?thesis
    using pos by (simp add: representable_def f64_round_def less_imp_neq [symmetric])
qed (simp add: representable_def)

lemma representable_of_nat: "n < 2 ^ 53 \<Longrightarrow> representable (of_nat n)"
  using representable_scaled [of "int n" 0] by simp

lemma representable_round:
  assumes "0 \<le> x"
  shows "representable (f64_round x)"
proof (cases "x = 0")
  case False
  with assms have pos: "0 < x" by simp
  let ?k = "round_half_even (x / f64_ulp x)"
  have r: "f64_round x = of_int ?k * 2 powi ulp_exp x"
    using pos by (simp add: f64_round_def f64_ulp_exp)
  have k: "0 \<le> ?k" using pos by (intro round_half_even_nonneg) (simp add: less_imp_le)
  have "?k \<le> round_half_even (of_int (2 ^ 53))"
    using scaled_quotient_le [OF pos] by (intro round_half_even_mono) simp
  then have "?k \<le> 2 ^ 53" by (simp only: round_half_even_of_int)
  then consider "?k < 2 ^ 53" | "?k = 2 ^ 53" by linarith
  then show ?thesis
  proof cases
    case 1
    then show ?thesis
      using k representable_scaled [of ?k "ulp_exp x"] by (simp add: r ulp_exp_def)
  next
    case 2
    then have "f64_round x = of_int (2 ^ 52) * 2 powi (ulp_exp x + 1)"
      by (simp add: r power_int_add)
    then show ?thesis
      using representable_scaled [of "2 ^ 52" "ulp_exp x + 1"] by (simp add: ulp_exp_def)
  qed
qed (simp add: representable_def)

lemma f64_round_mono:
  assumes "0 \<le> x" "x \<le> y"
  shows "f64_round x \<le> f64_round y"
proof (cases "x = 0")
  case True
  then show ?thesis using assms by (simp add: f64_round_nonneg)
next
  case False
  with assms have x: "0 < x" and y: "0 < y" by simp_all
  have rx: "f64_round x = of_int (round_half_even (x / f64_ulp x)) * f64_ulp x"
    and ry: "f64_round y = of_int (round_half_even (y / f64_ulp y)) * f64_ulp y"
    using x y by (simp_all add: f64_round_def)
  have "ulp_exp x \<le> ulp_exp y"
    using ilog2_mono [OF x assms(2)] by (simp add: ulp_exp_def)
  then consider "ulp_exp x = ulp_exp y" | "ulp_exp x < ulp_exp y" by linarith
  then show ?thesis
  proof cases
    case 1
    then show ?thesis
      using assms(2) by (auto simp: rx ry f64_ulp_exp intro!: mult_right_mono round_half_even_mono
        divide_right_mono)
  next
    case 2
    then have e: "ulp_exp y = ilog2 y - 52" "ulp_exp x + 53 \<le> ilog2 y"
      by (auto simp: ulp_exp_def max_def split: if_splits)
    have "round_half_even (x / f64_ulp x) \<le> round_half_even (of_int (2 ^ 53))"
      using scaled_quotient_le [OF x] by (intro round_half_even_mono) simp
    then have "of_int (round_half_even (x / f64_ulp x)) \<le> (of_int (2 ^ 53) :: rat)"
      by (simp only: round_half_even_of_int of_int_le_iff)
    then have "f64_round x \<le> 2 ^ 53 * f64_ulp x"
      unfolding rx by (intro mult_right_mono) (simp_all add: less_imp_le)
    also have "\<dots> = 2 powi (ulp_exp x + 53)" by (simp add: f64_ulp_exp power_int_add)
    also have "\<dots> \<le> 2 powi ilog2 y" using e(2) by (simp add: power_int_increasing)
    also have "\<dots> = of_int (2 ^ 52) * f64_ulp y"
      by (simp add: f64_ulp_exp e(1) power_int_diff)
    also have "\<dots> \<le> f64_round y"
    proof -
      have "of_int (2 ^ 52) \<le> y / f64_ulp y"
        using ilog2_bounds(1) [OF y] by (simp add: f64_ulp_exp e(1) power_int_diff divide_simps)
      then have "round_half_even (of_int (2 ^ 52)) \<le> round_half_even (y / f64_ulp y)"
        by (rule round_half_even_mono)
      then show ?thesis
        unfolding ry round_half_even_of_int
        by (intro mult_right_mono) (simp_all only: of_int_le_iff f64_ulp_pos less_imp_le)
    qed
    finally show ?thesis .
  qed
qed

lemma f64_sub_le:
  assumes "representable x" "1 \<le> x"
  shows "f64_sub x 1 \<le> x"
  using f64_round_mono [of "x - 1" x] assms by (simp add: f64_sub_def representable_def)

section \<open>Special values\<close>

datatype f64_class = Finite f64 | Pos_Inf | Neg_Inf | NaN

definition is_finite :: "f64_class \<Rightarrow> bool" where
  "is_finite x = (case x of Finite _ \<Rightarrow> True | _ \<Rightarrow> False)"

text \<open>Comparisons with a finite constant on the right; every comparison with NaN is false.\<close>

definition f64_le :: "f64_class \<Rightarrow> f64 \<Rightarrow> bool" where
  "f64_le x c = (case x of Finite r \<Rightarrow> r \<le> c | Neg_Inf \<Rightarrow> True | _ \<Rightarrow> False)"

definition f64_lt :: "f64_class \<Rightarrow> f64 \<Rightarrow> bool" where
  "f64_lt x c = (case x of Finite r \<Rightarrow> r < c | Neg_Inf \<Rightarrow> True | _ \<Rightarrow> False)"

end
