(* ===== verification/Token_Bucket.thy ===== *)
theory Token_Bucket
  imports F64
begin

text \<open>
  \<open>TokenBucket\<close> of \<open>src/rate_limit.rs\<close>, the global damper in front of \<open>/store\<close>, of \<open>/fetch\<close> and
  \<open>/trash\<close>, and of \<open>/attempts\<close>. \<open>Instant\<close>s are nanoseconds on the monotonic clock. The locale
  \<open>throttle\<close> states what the handlers rely on (each admission is paid from a credit that grows
  at a bounded rate) and proves the admission bound of a run of calls once.
\<close>

section \<open>The bucket\<close>

type_synonym instant = nat

record TokenBucket =
  tokens :: f64
  capacity :: f64
  refill_per_second :: f64
  last_refill :: instant

definition TokenBucket_new :: "f64 \<Rightarrow> f64 \<Rightarrow> instant \<Rightarrow> TokenBucket" where
  "TokenBucket_new cap refill now =
     \<lparr>tokens = cap, capacity = cap, refill_per_second = refill, last_refill = now\<rparr>"

text \<open>\<open>Duration::as_secs_f64\<close>: whole seconds plus the sub-second nanoseconds over \<open>10 ^ 9\<close>.\<close>

definition as_secs_f64 :: "nat \<Rightarrow> f64" where
  "as_secs_f64 ns =
     f64_add (f64_round (of_nat (ns div 10 ^ 9))) (f64_round (of_nat (ns mod 10 ^ 9) / 10 ^ 9))"

text \<open>\<open>duration_since\<close> of two instants saturates at zero, as truncated subtraction does.\<close>

definition try_consume :: "instant \<Rightarrow> TokenBucket \<Rightarrow> bool \<times> TokenBucket" where
  "try_consume now b =
     (let elapsed = as_secs_f64 (now - last_refill b);
          t = min (f64_add (tokens b) (f64_mul elapsed (refill_per_second b))) (capacity b);
          b' = b\<lparr>tokens := t, last_refill := now\<rparr>
      in if 1 \<le> t then (True, b'\<lparr>tokens := f64_sub t 1\<rparr>) else (False, b'))"

text \<open>What construction establishes and every call keeps.\<close>

definition bucket_wf :: "TokenBucket \<Rightarrow> bool" where
  "bucket_wf b \<longleftrightarrow> 0 \<le> tokens b \<and> tokens b \<le> capacity b \<and> 0 \<le> refill_per_second b \<and>
     representable (tokens b) \<and> representable (capacity b)"

lemma try_consume_frame [simp]:
  "capacity (snd (try_consume now b)) = capacity b"
  "refill_per_second (snd (try_consume now b)) = refill_per_second b"
  "last_refill (snd (try_consume now b)) = now"
  by (simp_all add: try_consume_def Let_def)

lemma as_secs_f64_nonneg: "0 \<le> as_secs_f64 n"
  by (simp add: as_secs_f64_def f64_add_def f64_round_nonneg)

lemma as_secs_f64_0 [simp]: "as_secs_f64 0 = 0"
  by (simp add: as_secs_f64_def f64_add_def)

lemma refilled_nonneg:
  "bucket_wf b \<Longrightarrow> 0 \<le> f64_add (tokens b) (f64_mul (as_secs_f64 n) (refill_per_second b))"
  by (simp add: bucket_wf_def f64_add_def f64_mul_def f64_round_nonneg as_secs_f64_nonneg)

lemma refilled_representable:
  "bucket_wf b \<Longrightarrow>
     representable (min (f64_add (tokens b) (f64_mul (as_secs_f64 n) (refill_per_second b))) (capacity b))"
  by (simp add: bucket_wf_def f64_add_def f64_mul_def f64_round_nonneg as_secs_f64_nonneg
      representable_round min_def)

lemma try_consume_wf [wf_intros]:
  assumes "bucket_wf b"
  shows "bucket_wf (snd (try_consume now b))"
proof -
  let ?t = "min (f64_add (tokens b) (f64_mul (as_secs_f64 (now - last_refill b))
    (refill_per_second b))) (capacity b)"
  have t: "0 \<le> ?t" "?t \<le> capacity b" "representable ?t"
    using assms refilled_nonneg [OF assms] refilled_representable [OF assms]
    by (auto simp: bucket_wf_def)
  have "f64_sub ?t 1 \<le> capacity b" "0 \<le> f64_sub ?t 1" "representable (f64_sub ?t 1)"
    if "1 \<le> ?t"
    using t that f64_sub_le [OF t(3) that]
    by (auto simp: f64_sub_def f64_round_nonneg representable_round simp del: min_le_iff_disj)
  with t assms show ?thesis
    by (simp add: try_consume_def bucket_wf_def Let_def del: min_le_iff_disj)
qed

lemma TokenBucket_new_wf:
  "0 \<le> cap \<Longrightarrow> 0 \<le> refill \<Longrightarrow> representable cap \<Longrightarrow> bucket_wf (TokenBucket_new cap refill now)"
  by (simp add: bucket_wf_def TokenBucket_new_def)

section \<open>The interface of a throttle\<close>

text \<open>The calls of a run, by their times: how many are admitted, and the final state.\<close>

primrec serve_all :: "(instant \<Rightarrow> 'b \<Rightarrow> bool \<times> 'b) \<Rightarrow> instant list \<Rightarrow> 'b \<Rightarrow> nat \<times> 'b" where
  "serve_all try_take [] b = (0, b)"
| "serve_all try_take (t # ts) b =
     (let r = try_take t b; rest = serve_all try_take ts (snd r)
      in ((if fst r then 1 else 0) + fst rest, snd rest))"

locale throttle =
  fixes try_take :: "instant \<Rightarrow> 'b \<Rightarrow> bool \<times> 'b"
    and ok :: "'b \<Rightarrow> bool"
    and clock :: "'b \<Rightarrow> instant"
    and credit :: "'b \<Rightarrow> rat"
    and rate :: "'b \<Rightarrow> rat"
    and slack :: "'b \<Rightarrow> rat"
  assumes take_ok: "ok b \<Longrightarrow> ok (snd (try_take t b))"
    and take_clock: "clock (snd (try_take t b)) = t"
    and take_rate: "rate (snd (try_take t b)) = rate b"
    and take_slack: "slack (snd (try_take t b)) = slack b"
    and credit_nonneg: "ok b \<Longrightarrow> 0 \<le> credit b"
    and take_credit: "ok b \<Longrightarrow> clock b \<le> t \<Longrightarrow>
      credit (snd (try_take t b)) + (if fst (try_take t b) then 1 else 0)
        \<le> credit b + rate b * of_nat (t - clock b) + slack b"
begin

lemma serve_all_credit:
  assumes "ok b" "sorted (clock b # ts)"
  shows "credit (snd (serve_all try_take ts b)) + of_nat (fst (serve_all try_take ts b))
    \<le> credit b + rate b * of_nat (last (clock b # ts) - clock b) + of_nat (length ts) * slack b"
  using assms
proof (induction ts arbitrary: b)
  case Nil
  then show ?case by simp
next
  case (Cons t ts)
  let ?b = "snd (try_take t b)"
  have IH: "credit (snd (serve_all try_take ts ?b)) + of_nat (fst (serve_all try_take ts ?b))
    \<le> credit ?b + rate b * of_nat (last (t # ts) - t) + of_nat (length ts) * slack b"
    using Cons.IH [of ?b] Cons.prems by (simp add: take_ok take_clock take_rate take_slack)
  have le: "clock b \<le> t" "t \<le> last (t # ts)"
    using Cons.prems(2) by (auto simp: last_in_set)
  have "rate b * of_nat (last (t # ts) - clock b)
      = rate b * of_nat (t - clock b) + rate b * of_nat (last (t # ts) - t)"
    using le by (simp add: of_nat_diff algebra_simps)
  with IH take_credit [OF Cons.prems(1) le(1)] show ?case
    by (simp add: Let_def algebra_simps split: if_splits)
qed

theorem serve_all_bound:
  assumes "ok b" "sorted (clock b # ts)"
  shows "of_nat (fst (serve_all try_take ts b))
    \<le> credit b + rate b * of_nat (last (clock b # ts) - clock b) + of_nat (length ts) * slack b"
proof -
  have "ok (snd (serve_all try_take ts b))"
    using assms(1) by (induction ts arbitrary: b) (simp_all add: Let_def take_ok)
  then show ?thesis
    using serve_all_credit [OF assms] credit_nonneg by force
qed

end

section \<open>The token bucket is a throttle\<close>

text \<open>
  Rounding costs a relative \<open>f64_eps\<close> per operation: four of them on the refill, two on the
  balance. The first widens the rate, the second is the slack of one call.
\<close>

definition bucket_rate :: "TokenBucket \<Rightarrow> rat" where
  "bucket_rate b = refill_per_second b * (1 + f64_eps) ^ 4 / 10 ^ 9"

definition bucket_slack :: "TokenBucket \<Rightarrow> rat" where
  "bucket_slack b = 2 * f64_eps * capacity b + (20 * refill_per_second b + 4) * f64_tiny"

lemma eps_le_1: "f64_eps \<le> 1"
  using f64_eps_le by simp

lemma f64_round_upper': "0 \<le> x \<Longrightarrow> x \<le> y \<Longrightarrow> f64_round x \<le> y * (1 + f64_eps) + f64_tiny"
  using order_trans [OF f64_round_upper [of x] add_right_mono [OF mult_right_mono, of x y "1 + f64_eps"]]
    f64_eps_pos by simp

lemma as_secs_f64_upper:
  "as_secs_f64 n \<le> of_nat n / 10 ^ 9 * (1 + f64_eps)\<^sup>2 + 5 * f64_tiny"
proof -
  let ?S = "of_nat (n div 10 ^ 9) :: rat" and ?F = "of_nat (n mod 10 ^ 9) / 10 ^ 9 :: rat"
  have SF: "?S + ?F = of_nat n / 10 ^ 9"
  proof -
    have "(of_nat n :: rat) = of_nat (n div 10 ^ 9 * 10 ^ 9 + n mod 10 ^ 9)" by simp
    then show ?thesis by (simp only: of_nat_add of_nat_mult) (simp add: field_simps)
  qed
  have "f64_round ?S + f64_round ?F \<le> (?S * (1 + f64_eps) + f64_tiny) + (?F * (1 + f64_eps) + f64_tiny)"
    by (intro add_mono f64_round_upper) simp_all
  also have "\<dots> = of_nat n / 10 ^ 9 * (1 + f64_eps) + 2 * f64_tiny"
    unfolding SF [symmetric] by (simp add: distrib_right)
  finally have "as_secs_f64 n
      \<le> (of_nat n / 10 ^ 9 * (1 + f64_eps) + 2 * f64_tiny) * (1 + f64_eps) + f64_tiny"
    unfolding as_secs_f64_def f64_add_def
    by (intro f64_round_upper') (simp_all add: f64_round_nonneg)
  also have "\<dots> \<le> of_nat n / 10 ^ 9 * (1 + f64_eps)\<^sup>2 + 5 * f64_tiny"
    using mult_right_mono [OF eps_le_1, of f64_tiny] f64_tiny_pos
    by (simp add: power2_eq_square algebra_simps)
  finally show ?thesis .
qed

lemma earned_upper:
  assumes "0 \<le> r"
  shows "f64_mul (as_secs_f64 n) r
    \<le> r * of_nat n / 10 ^ 9 * (1 + f64_eps) ^ 3 + (10 * r + 1) * f64_tiny"
proof -
  let ?D = "of_nat n / 10 ^ 9 :: rat"
  have "as_secs_f64 n * r \<le> (?D * (1 + f64_eps)\<^sup>2 + 5 * f64_tiny) * r"
    using assms as_secs_f64_upper by (intro mult_right_mono)
  then have "f64_mul (as_secs_f64 n) r
      \<le> (?D * (1 + f64_eps)\<^sup>2 + 5 * f64_tiny) * r * (1 + f64_eps) + f64_tiny"
    unfolding f64_mul_def using assms
    by (intro f64_round_upper') (simp_all add: as_secs_f64_nonneg)
  also have "\<dots> = r * of_nat n / 10 ^ 9 * (1 + f64_eps) ^ 3 + 5 * f64_tiny * r * (1 + f64_eps) + f64_tiny"
    by (simp add: power2_eq_square power3_eq_cube algebra_simps)
  also have "5 * f64_tiny * r * (1 + f64_eps) \<le> 5 * f64_tiny * r * 2"
    using assms eps_le_1 f64_tiny_pos by (intro mult_left_mono) auto
  finally show ?thesis by (simp add: algebra_simps)
qed

lemma refill_upper:
  assumes "bucket_wf b"
  shows "f64_add (tokens b) (f64_mul (as_secs_f64 n) (refill_per_second b))
    \<le> tokens b + bucket_rate b * of_nat n + f64_eps * capacity b
      + (20 * refill_per_second b + 3) * f64_tiny"
proof -
  let ?r = "refill_per_second b"
  let ?Y = "?r * of_nat n / 10 ^ 9 * (1 + f64_eps) ^ 3 + (10 * ?r + 1) * f64_tiny"
  have r: "0 \<le> ?r" and T: "0 \<le> tokens b" "tokens b \<le> capacity b"
    using assms by (auto simp: bucket_wf_def)
  have Y: "f64_mul (as_secs_f64 n) ?r \<le> ?Y" using r by (rule earned_upper)
  have pos: "0 \<le> tokens b + f64_mul (as_secs_f64 n) ?r"
    using r T by (simp add: f64_mul_def f64_round_nonneg as_secs_f64_nonneg)
  have "f64_add (tokens b) (f64_mul (as_secs_f64 n) ?r) \<le> (tokens b + ?Y) * (1 + f64_eps) + f64_tiny"
    unfolding f64_add_def using pos Y by (intro f64_round_upper') simp_all
  also have "\<dots> = tokens b + f64_eps * tokens b + bucket_rate b * of_nat n
      + (10 * ?r + 1) * f64_tiny * (1 + f64_eps) + f64_tiny"
    by (simp add: bucket_rate_def eval_nat_numeral algebra_simps)
  also have "(10 * ?r + 1) * f64_tiny * (1 + f64_eps) \<le> (10 * ?r + 1) * f64_tiny * 2"
    using r eps_le_1 f64_tiny_pos by (intro mult_left_mono) auto
  also have "f64_eps * tokens b \<le> f64_eps * capacity b"
    using T f64_eps_pos by (intro mult_left_mono) auto
  finally show ?thesis by (simp add: algebra_simps)
qed

lemma consume_credit:
  assumes "bucket_wf b"
  shows "tokens (snd (try_consume now b)) + (if fst (try_consume now b) then 1 else 0)
    \<le> tokens b + bucket_rate b * of_nat (now - last_refill b) + bucket_slack b"
proof -
  let ?n = "now - last_refill b"
  let ?a = "f64_add (tokens b) (f64_mul (as_secs_f64 ?n) (refill_per_second b))"
  let ?t = "min ?a (capacity b)"
  have a: "?a \<le> tokens b + bucket_rate b * of_nat ?n + f64_eps * capacity b
      + (20 * refill_per_second b + 3) * f64_tiny"
    using assms by (rule refill_upper)
  have C: "0 \<le> f64_eps * capacity b" using assms f64_eps_pos by (simp add: bucket_wf_def)
  have slack: "bucket_slack b
      = f64_eps * capacity b + f64_eps * capacity b + (20 * refill_per_second b + 3) * f64_tiny + f64_tiny"
    by (simp add: bucket_slack_def algebra_simps)
  show ?thesis
  proof (cases "1 \<le> ?t")
    case True
    have "f64_sub ?t 1 \<le> (?t - 1) * (1 + f64_eps) + f64_tiny"
      unfolding f64_sub_def using True by (intro f64_round_upper) simp
    also have "\<dots> \<le> ?t - 1 + f64_eps * ?t + f64_tiny"
      using f64_eps_pos by (simp add: algebra_simps)
    also have "f64_eps * ?t \<le> f64_eps * capacity b"
      using f64_eps_pos by (intro mult_left_mono) auto
    finally have "f64_sub ?t 1 + 1 \<le> ?a + f64_eps * capacity b + f64_tiny" by simp
    with a True show ?thesis
      by (simp add: try_consume_def Let_def slack del: min_le_iff_disj min_less_iff_conj)
  next
    case False
    then have "try_consume now b = (False, b\<lparr>tokens := ?t, last_refill := now\<rparr>)"
      by (simp add: try_consume_def Let_def)
    moreover have "?t \<le> ?a" by simp
    ultimately show ?thesis using a C f64_tiny_pos by (simp add: slack del: min_le_iff_disj)
  qed
qed

interpretation bucket: throttle try_consume bucket_wf last_refill tokens bucket_rate bucket_slack
proof unfold_locales
  show "bucket_wf b \<Longrightarrow> bucket_wf (snd (try_consume t b))" for b t
    by (rule try_consume_wf)
  show "bucket_wf b \<Longrightarrow> 0 \<le> tokens b" for b
    by (simp add: bucket_wf_def)
  show "bucket_wf b \<Longrightarrow> last_refill b \<le> t \<Longrightarrow>
      tokens (snd (try_consume t b)) + (if fst (try_consume t b) then 1 else 0)
        \<le> tokens b + bucket_rate b * of_nat (t - last_refill b) + bucket_slack b" for b t
    by (rule consume_credit)
qed (simp_all add: bucket_rate_def bucket_slack_def)

section \<open>Properties of the buckets\<close>

text \<open>
  C32. A bucket admits no more than it was given: over any sequence of calls in time order, the
  admissions are bounded by the tokens at the start, the refill rate times the time that passed,
  and a rounding slack per call, both of them within a few parts in \<open>2 ^ 53\<close> of the exact value.
\<close>

theorem bucket_admission_bound:
  assumes "bucket_wf b" "sorted (last_refill b # ts)"
  shows "of_nat (fst (serve_all try_consume ts b)) \<le>
    tokens b + bucket_rate b * of_nat (last (last_refill b # ts) - last_refill b) + of_nat (length ts) * bucket_slack b"
  using assms by (rule bucket.serve_all_bound)

theorem bucket_admission_bound_witness:
  "of_nat (fst (serve_all try_consume [5, 7] (TokenBucket_new 10 2 0))) \<le>
     (10 :: rat) + bucket_rate (TokenBucket_new 10 2 0) * 7 + 2 * bucket_slack (TokenBucket_new 10 2 0)"
proof -
  have "representable 10" using representable_of_nat [of 10] by simp
  then have "bucket_wf (TokenBucket_new 10 2 0)" by (intro TokenBucket_new_wf) simp_all
  from bucket_admission_bound [OF this, of "[5, 7]"] show ?thesis by (simp add: TokenBucket_new_def)
qed

lemma try_consume_at_once:
  assumes "n < 2 ^ 53" "n \<le> cap" "cap < 2 ^ 53"
  shows "try_consume t \<lparr>tokens = of_nat n, capacity = of_nat cap, refill_per_second = r, last_refill = t\<rparr> =
    (0 < n, \<lparr>tokens = of_nat (n - 1), capacity = of_nat cap, refill_per_second = r, last_refill = t\<rparr>)"
proof -
  have round: "f64_round (of_nat k) = of_nat k" if "k \<le> n" for k
    using representable_of_nat [of k] assms(1) that by (simp add: representable_def)
  show ?thesis
  proof (cases n)
    case 0
    then show ?thesis by (simp add: try_consume_def Let_def f64_add_def f64_mul_def)
  next
    case (Suc k)
    then have "f64_round (of_nat n - 1) = of_nat k" using round [of k] by simp
    then show ?thesis
      using Suc round [of n] assms(2) by (simp add: try_consume_def Let_def f64_add_def f64_mul_def f64_sub_def)
  qed
qed

text \<open>
  The burst is exact: of any number of simultaneous calls a fresh bucket of \<open>n\<close> tokens admits
  the first \<open>n\<close> and no other, without rounding error, up to \<open>2 ^ 53\<close>.
\<close>

lemma burst_is_exact:
  assumes "n < 2 ^ 53"
  shows "fst (serve_all try_consume (replicate calls t) (TokenBucket_new (of_nat n) r t)) = min n calls"
proof -
  have "fst (serve_all try_consume (replicate calls t)
      \<lparr>tokens = of_nat k, capacity = of_nat n, refill_per_second = r, last_refill = t\<rparr>) = min k calls"
    if "k \<le> n" for k
    using that
  proof (induction calls arbitrary: k)
    case (Suc calls)
    have "k < 2 ^ 53" using Suc.prems assms by simp
    then show ?case
      using Suc.IH [of "k - 1"] Suc.prems try_consume_at_once [of k n t r] assms
      by (cases k) (simp_all add: Let_def)
  qed simp
  then show ?thesis by (simp add: TokenBucket_new_def)
qed

end
