(* ===== verification/App_State.thy ===== *)
theory App_State
  imports Token_Bucket Limiter
begin

text \<open>
  \<open>AppState\<close> of \<open>src/main.rs\<close>: the configuration every handler clones and the shared cells behind
  its \<open>Arc\<close>s (the rate-limit map, the three buckets, the database semaphore, the canary cache
  and the \<open>/attempts\<close> snapshot). One value of the record is the server's memory; a handler
  that holds a lock updates the field of that cell. \<open>SystemTime\<close> and \<open>Instant\<close> are nanoseconds.
\<close>

record CachedCanary =
  cc_modified :: int
  cc_len :: u64
  cc_value :: "string option"

record AttemptsSnapshotCache =
  gzip_body :: rust_bytes
  etag :: string
  created_at :: instant

record AppState =
  server_address :: string
  database_url :: string
  canary :: string
  canary_from_env :: bool
  canary_path :: string
  canary_cache :: "CachedCanary option"
  rate_limit_cooldown :: TimeDelta
  identifier_rate_limit :: RateLimitMap
  secret_max_length :: usize
  rate_limit_max_attempts :: u8
  store_token_bucket :: TokenBucket
  lookup_token_bucket :: TokenBucket
  attempts_token_bucket :: TokenBucket
  rate_limit_max_identifiers :: usize
  database_semaphore :: nat
  attempts_collection_started_at :: DateTime
  attempts_snapshot :: "AttemptsSnapshotCache option"
  attempts_snapshot_ttl :: nat

text \<open>\<open>TimeDelta::num_minutes\<close>.\<close>

definition cooldown_minutes :: "AppState \<Rightarrow> int" where
  "cooldown_minutes st = trunc_div (rate_limit_cooldown st) nanos_per_minute"

text \<open>What \<open>env::init\<close> guarantees of the values the limiter uses.\<close>

definition limits_ok :: "AppState \<Rightarrow> bool" where
  "limits_ok st \<longleftrightarrow>
     nanos_per_minute \<le> rate_limit_cooldown st \<and>
     rate_limit_cooldown st \<le> 525600 * nanos_per_minute \<and>
     0 < rate_limit_max_attempts st \<and> 0 < rate_limit_max_identifiers st"

definition state_wf :: "AppState \<Rightarrow> bool" where
  "state_wf st \<longleftrightarrow> limits_ok st \<and>
     map_wf (rate_limit_max_attempts st) (rate_limit_max_identifiers st) (identifier_rate_limit st)"

text \<open>The locked updates of the map, on the whole state.\<close>

definition with_map :: "(RateLimitMap \<Rightarrow> RateLimitMap) \<Rightarrow> AppState \<Rightarrow> AppState" where
  "with_map f st = st\<lparr>identifier_rate_limit := f (identifier_rate_limit st)\<rparr>"

definition admit_state ::
  "AppState \<Rightarrow> string \<Rightarrow> CandidateTag \<Rightarrow> DateTime \<Rightarrow> admit_result \<times> AppState" where
  "admit_state st id_hash candidate requested_at =
     (let (r, m) = admit (rate_limit_cooldown st) (rate_limit_max_attempts st)
                     (rate_limit_max_identifiers st) id_hash candidate requested_at
                     (identifier_rate_limit st)
      in (r, st\<lparr>identifier_rate_limit := m\<rparr>))"

definition sweep_state :: "DateTime \<Rightarrow> AppState \<Rightarrow> AppState" where
  "sweep_state now st = with_map (sweep_expired_identifiers (rate_limit_cooldown st) now) st"

definition take_lookup_token :: "instant \<Rightarrow> AppState \<Rightarrow> bool \<times> AppState" where
  "take_lookup_token now st =
     (let (ok, b) = try_consume now (lookup_token_bucket st) in (ok, st\<lparr>lookup_token_bucket := b\<rparr>))"

definition take_store_token :: "instant \<Rightarrow> AppState \<Rightarrow> bool \<times> AppState" where
  "take_store_token now st =
     (let (ok, b) = try_consume now (store_token_bucket st) in (ok, st\<lparr>store_token_bucket := b\<rparr>))"

definition take_attempts_token :: "instant \<Rightarrow> AppState \<Rightarrow> bool \<times> AppState" where
  "take_attempts_token now st =
     (let (ok, b) = try_consume now (attempts_token_bucket st) in (ok, st\<lparr>attempts_token_bucket := b\<rparr>))"

lemma with_map_sel [simp]:
  "identifier_rate_limit (with_map f st) = f (identifier_rate_limit st)"
  "rate_limit_cooldown (with_map f st) = rate_limit_cooldown st"
  "rate_limit_max_attempts (with_map f st) = rate_limit_max_attempts st"
  "rate_limit_max_identifiers (with_map f st) = rate_limit_max_identifiers st"
  "database_semaphore (with_map f st) = database_semaphore st"
  by (simp_all add: with_map_def)

lemma limits_ok_with_map [simp]: "limits_ok (with_map f st) = limits_ok st"
  by (simp add: limits_ok_def)

lemma take_token_sel [simp]:
  "identifier_rate_limit (snd (take_lookup_token now st)) = identifier_rate_limit st"
  "rate_limit_cooldown (snd (take_lookup_token now st)) = rate_limit_cooldown st"
  "rate_limit_max_attempts (snd (take_lookup_token now st)) = rate_limit_max_attempts st"
  "rate_limit_max_identifiers (snd (take_lookup_token now st)) = rate_limit_max_identifiers st"
  "database_semaphore (snd (take_lookup_token now st)) = database_semaphore st"
  "identifier_rate_limit (snd (take_store_token now st)) = identifier_rate_limit st"
  "rate_limit_cooldown (snd (take_store_token now st)) = rate_limit_cooldown st"
  "rate_limit_max_attempts (snd (take_store_token now st)) = rate_limit_max_attempts st"
  "rate_limit_max_identifiers (snd (take_store_token now st)) = rate_limit_max_identifiers st"
  "database_semaphore (snd (take_store_token now st)) = database_semaphore st"
  by (simp_all add: take_lookup_token_def take_store_token_def split_beta)

lemma admit_state_sel [simp]:
  "identifier_rate_limit (snd (admit_state st i c now)) =
     snd (admit (rate_limit_cooldown st) (rate_limit_max_attempts st)
            (rate_limit_max_identifiers st) i c now (identifier_rate_limit st))"
  "fst (admit_state st i c now) =
     fst (admit (rate_limit_cooldown st) (rate_limit_max_attempts st)
            (rate_limit_max_identifiers st) i c now (identifier_rate_limit st))"
  "rate_limit_cooldown (snd (admit_state st i c now)) = rate_limit_cooldown st"
  "rate_limit_max_attempts (snd (admit_state st i c now)) = rate_limit_max_attempts st"
  "rate_limit_max_identifiers (snd (admit_state st i c now)) = rate_limit_max_identifiers st"
  "database_semaphore (snd (admit_state st i c now)) = database_semaphore st"
  by (simp_all add: admit_state_def split_beta)

lemma state_wf_map [wf_intros]:
  "state_wf st \<Longrightarrow>
     map_wf (rate_limit_max_attempts st) (rate_limit_max_identifiers st) (f (identifier_rate_limit st)) \<Longrightarrow>
     state_wf (with_map f st)"
  by (simp add: state_wf_def limits_ok_def)

lemma admit_state_wf [wf_intros]: "state_wf st \<Longrightarrow> state_wf (snd (admit_state st i c now))"
  by (simp add: state_wf_def limits_ok_def admit_wf)

lemma sweep_state_wf [wf_intros]: "state_wf st \<Longrightarrow> state_wf (sweep_state now st)"
  by (simp add: sweep_state_def state_wf_map sweep_wf state_wf_def)

end
