(* ===== verification/Database.thy ===== *)
theory Database
  imports Models
begin

text \<open>
  \<open>write\<close>, \<open>read_secret_by_id\<close> and \<open>read_and_trash_secret_by_id\<close> of \<open>src/database.rs\<close>, over the
  table of \<open>migrations/0001_schema/up.sql\<close>. SQLite and diesel are not part of the repository: the
  statements the code sends are the fields of the parameter record \<open>engine\<close>, and the locale
  \<open>sqlite\<close> states what the code relies on them to do. The locale \<open>secret_store\<close> is the contract
  the handlers rely on; \<open>sublocale\<close> proves it of the code's three functions over any such engine.
\<close>

section \<open>The statements sent to SQLite\<close>

type_synonym sql_error = string
type_synonym rows = "string \<Rightarrow> Secret option"

record 'db engine =
  establish :: "'db \<Rightarrow> 'db option"
  insert_on_conflict_do_nothing :: "Secret \<Rightarrow> 'db \<Rightarrow> (sql_error + nat) \<times> 'db"
  select_first :: "string \<Rightarrow> 'db \<Rightarrow> sql_error + Secret option"
  delete_by_id :: "string \<Rightarrow> 'db \<Rightarrow> (sql_error + nat) \<times> 'db"
  begin_immediate :: "'db \<Rightarrow> sql_error + 'db"
  commit :: "'db \<Rightarrow> (sql_error + unit) \<times> 'db"
  rollback :: "'db \<Rightarrow> 'db"

section \<open>The functions of database.rs\<close>

text \<open>Opening a connection and setting its busy timeout; \<open>None\<close> is the panic of an \<open>expect\<close>.\<close>

definition establish_connection :: "'db engine \<Rightarrow> 'db \<Rightarrow> 'db option" where
  "establish_connection E d = establish E d"

definition write_secret :: "'db engine \<Rightarrow> Secret \<Rightarrow> 'db \<Rightarrow> bool \<times> 'db" where
  "write_secret E new_secret d =
     (case insert_on_conflict_do_nothing E new_secret d of
        (Inl _, d') \<Rightarrow> (False, d')
      | (Inr _, d') \<Rightarrow> (True, d'))"

definition read_secret_by_id :: "'db engine \<Rightarrow> string \<Rightarrow> 'db \<Rightarrow> sql_error + Secret option" where
  "read_secret_by_id E secret_id d = select_first E secret_id d"

text \<open>The body of the immediate transaction.\<close>

definition trash_body :: "'db engine \<Rightarrow> string \<Rightarrow> 'db \<Rightarrow> (sql_error + Secret option) \<times> 'db" where
  "trash_body E secret_id d =
     (case read_secret_by_id E secret_id d of
        Inl e \<Rightarrow> (Inl e, d)
      | Inr None \<Rightarrow> (Inr None, d)
      | Inr (Some stored_secret) \<Rightarrow>
          (case delete_by_id E secret_id d of
             (Inl e, d') \<Rightarrow> (Inl e, d')
           | (Inr deleted, d') \<Rightarrow>
               if deleted \<noteq> 1 then (Inl ''NotFound'', d') else (Inr (Some stored_secret), d')))"

text \<open>
  \<open>Connection::immediate_transaction\<close>: the body between \<open>BEGIN IMMEDIATE\<close> and \<open>COMMIT\<close>, rolled
  back when the body or the commit fails.
\<close>

definition immediate_transaction ::
  "'db engine \<Rightarrow> ('db \<Rightarrow> (sql_error + 'a) \<times> 'db) \<Rightarrow> 'db \<Rightarrow> (sql_error + 'a) \<times> 'db" where
  "immediate_transaction E f d =
     (case begin_immediate E d of
        Inl e \<Rightarrow> (Inl e, d)
      | Inr d1 \<Rightarrow>
          (case f d1 of
             (Inl e, d2) \<Rightarrow> (Inl e, rollback E d2)
           | (Inr r, d2) \<Rightarrow>
               (case commit E d2 of
                  (Inl e, d3) \<Rightarrow> (Inl e, rollback E d3)
                | (Inr _, d3) \<Rightarrow> (Inr r, d3))))"

definition read_and_trash_secret_by_id ::
  "'db engine \<Rightarrow> string \<Rightarrow> 'db \<Rightarrow> (sql_error + Secret option) \<times> 'db" where
  "read_and_trash_secret_by_id E secret_id d = immediate_transaction E (trash_body E secret_id) d"

section \<open>The contract of the secret store\<close>

text \<open>
  Writing never overwrites; a failed operation changes no row; trashing returns the row it
  deletes; reading returns the row.
\<close>

locale secret_store =
  fixes view :: "'d \<Rightarrow> rows"
    and put :: "Secret \<Rightarrow> 'd \<Rightarrow> bool \<times> 'd"
    and get :: "string \<Rightarrow> 'd \<Rightarrow> sql_error + Secret option"
    and trash :: "string \<Rightarrow> 'd \<Rightarrow> (sql_error + Secret option) \<times> 'd"
  assumes put_done: "fst (put s d) \<Longrightarrow>
      view (snd (put s d)) = (if view d (sec_id s) = None then (view d)(sec_id s \<mapsto> s) else view d)"
    and put_failed: "\<not> fst (put s d) \<Longrightarrow> view (snd (put s d)) = view d"
    and get_row: "get k d = Inr r \<Longrightarrow> r = view d k"
    and trash_done: "fst (trash k d) = Inr r \<Longrightarrow>
      r = view d k \<and> view (snd (trash k d)) = (view d)(k := None)"
    and trash_failed: "fst (trash k d) = Inl e \<Longrightarrow> view (snd (trash k d)) = view d"
begin

lemma put_keeps: "view d k = Some r \<Longrightarrow> view (snd (put s d)) k = Some r"
  by (cases "fst (put s d)") (auto simp: put_done put_failed)

lemma put_get: "fst (put s d) \<Longrightarrow> view d (sec_id s) = None \<Longrightarrow>
    get (sec_id s) (snd (put s d)) = Inr r \<Longrightarrow> r = Some s"
  by (auto simp: put_done dest: get_row)

lemma put_idempotent: "fst (put s d) \<Longrightarrow> view (snd (put s' (snd (put s d)))) =
    view (snd (put s d))" if "sec_id s' = sec_id s"
  using that put_done [of s d] put_done [of s' "snd (put s d)"] put_failed [of s' "snd (put s d)"]
  by (cases "fst (put s' (snd (put s d)))") (auto split: if_splits)

lemma trash_once: "fst (trash k d) = Inr r \<Longrightarrow> fst (trash k (snd (trash k d))) = Inr r' \<Longrightarrow> r' = None"
  by (auto dest!: trash_done)

lemma trash_other: "k' \<noteq> k \<Longrightarrow> view (snd (trash k d)) k' = view d k'"
  using trash_done [of k d] trash_failed [of k d] by (cases "fst (trash k d)") auto

end

section \<open>What the code relies on SQLite for\<close>

text \<open>
  \<open>view\<close> is the content of the table seen by the next statement, \<open>saved\<close> the content a rollback
  returns to. The hypotheses are SQLite's documented behaviour: \<open>ON CONFLICT DO NOTHING\<close> on the
  primary key, deletion by primary key and its row count, statement-level atomicity of a failed
  statement, and the rollback of a transaction.
\<close>

locale sqlite =
  fixes E :: "'db engine"
    and view :: "'db \<Rightarrow> rows"
    and saved :: "'db \<Rightarrow> rows"
  assumes insert_view: "view (snd (insert_on_conflict_do_nothing E s d)) =
      (case fst (insert_on_conflict_do_nothing E s d) of
         Inl _ \<Rightarrow> view d
       | Inr _ \<Rightarrow> if view d (sec_id s) = None then (view d)(sec_id s \<mapsto> s) else view d)"
    and select_view: "select_first E k d = Inr r \<Longrightarrow> r = view d k"
    and delete_view: "view (snd (delete_by_id E k d)) =
      (case fst (delete_by_id E k d) of Inl _ \<Rightarrow> view d | Inr _ \<Rightarrow> (view d)(k := None))"
    and delete_saved: "saved (snd (delete_by_id E k d)) = saved d"
    and begin_view: "begin_immediate E d = Inr d' \<Longrightarrow> view d' = view d \<and> saved d' = view d"
    and commit_view: "fst (commit E d) = Inr u \<Longrightarrow> view (snd (commit E d)) = view d"
    and commit_saved: "fst (commit E d) = Inl e \<Longrightarrow> saved (snd (commit E d)) = saved d"
    and rollback_view: "view (rollback E d) = saved d"
    and establish_view: "establish E d = Some d' \<Longrightarrow> view d' = view d"
begin

lemma trash_body_view:
  "fst (trash_body E k d) = Inr r \<Longrightarrow>
     r = view d k \<and> view (snd (trash_body E k d)) = (view d)(k := None)"
  using select_view [of k d] delete_view [of k d]
  by (auto simp: trash_body_def read_secret_by_id_def split: sum.splits option.splits prod.splits if_splits)

lemma trash_body_saved: "saved (snd (trash_body E k d)) = saved d"
  using delete_saved [of k d]
  by (auto simp: trash_body_def split: sum.splits option.splits prod.splits if_splits)

lemma transaction_view:
  assumes "\<And>d r. fst (f d) = Inr r \<Longrightarrow> P (view d) r (view (snd (f d)))"
    and "\<And>d. saved (snd (f d)) = saved d"
  shows "fst (immediate_transaction E f d) = Inr r \<Longrightarrow>
      P (view d) r (view (snd (immediate_transaction E f d)))"
    and "fst (immediate_transaction E f d) = Inl e \<Longrightarrow>
      view (snd (immediate_transaction E f d)) = view d"
proof -
  note split = sum.splits prod.splits
  show "P (view d) r (view (snd (immediate_transaction E f d)))"
    if "fst (immediate_transaction E f d) = Inr r"
  proof -
    from that obtain d1 d2 d3 where d: "begin_immediate E d = Inr d1" "f d1 = (Inr r, d2)"
        "fst (commit E d2) = Inr ()" "snd (immediate_transaction E f d) = snd (commit E d2)"
      by (auto simp: immediate_transaction_def split: split)
    have "P (view d1) r (view d2)" using assms(1) [of d1 r] d(2) by simp
    then show ?thesis using begin_view [OF d(1)] commit_view [OF d(3)] d(4) by simp
  qed
  show "view (snd (immediate_transaction E f d)) = view d"
    if failed: "fst (immediate_transaction E f d) = Inl e"
  proof (cases "begin_immediate E d")
    case (Inl e')
    then show ?thesis by (simp add: immediate_transaction_def)
  next
    case (Inr d1)
    have "saved (snd (f d1)) = view d" using assms(2) begin_view [OF Inr] by simp
    then show ?thesis
      using failed Inr commit_saved [of "snd (f d1)"]
      by (auto simp: immediate_transaction_def rollback_view split: split)
  qed
qed

lemma read_and_trash_view:
  "fst (read_and_trash_secret_by_id E k d) = Inr r \<Longrightarrow>
     r = view d k \<and> view (snd (read_and_trash_secret_by_id E k d)) = (view d)(k := None)"
  "fst (read_and_trash_secret_by_id E k d) = Inl e \<Longrightarrow>
     view (snd (read_and_trash_secret_by_id E k d)) = view d"
  unfolding read_and_trash_secret_by_id_def
  by (rule transaction_view [where P = "\<lambda>v r v'. r = v k \<and> v' = v(k := None)"],
      simp_all add: trash_body_view trash_body_saved)+

end

sublocale sqlite \<subseteq> store: secret_store view "write_secret E" "read_secret_by_id E" "read_and_trash_secret_by_id E"
proof unfold_locales
  show "fst (write_secret E s d) \<Longrightarrow>
      view (snd (write_secret E s d)) = (if view d (sec_id s) = None then (view d)(sec_id s \<mapsto> s) else view d)"
    and "\<not> fst (write_secret E s d) \<Longrightarrow> view (snd (write_secret E s d)) = view d" for s d
    using insert_view [of s d] by (auto simp: write_secret_def split: prod.splits sum.splits)
  show "read_secret_by_id E k d = Inr r \<Longrightarrow> r = view d k" for k d r
    by (simp add: read_secret_by_id_def select_view)
qed (auto dest: read_and_trash_view)

section \<open>A reference engine\<close>

text \<open>
  A table as a finite map, with the transaction's saved copy and a list of the statements that
  fail next: the concrete engine of the witnesses.
\<close>

record table_db =
  table_rows :: "(string, Secret) hash_map"
  table_saved :: "(string, Secret) hash_map"
  faults :: "bool list"

definition next_fault :: "table_db \<Rightarrow> bool \<times> table_db" where
  "next_fault d = (case faults d of [] \<Rightarrow> (False, d) | f # fs \<Rightarrow> (f, d\<lparr>faults := fs\<rparr>))"

definition table_engine :: "table_db engine" where
  "table_engine =
     \<lparr>establish = (\<lambda>d. if fst (next_fault d) then None else Some (snd (next_fault d))),
      insert_on_conflict_do_nothing = (\<lambda>s d. let (f, d) = next_fault d in
        if f then (Inl ''SQLITE_BUSY'', d)
        else if hm_get (table_rows d) (sec_id s) = None
        then (Inr 1, d\<lparr>table_rows := hm_insert (sec_id s) s (table_rows d)\<rparr>) else (Inr 0, d)),
      select_first = (\<lambda>k d. if fst (next_fault d) then Inl ''SQLITE_BUSY'' else Inr (hm_get (table_rows d) k)),
      delete_by_id = (\<lambda>k d. let (f, d) = next_fault d in
        if f then (Inl ''SQLITE_BUSY'', d)
        else (Inr (if hm_get (table_rows d) k = None then 0 else 1),
              d\<lparr>table_rows := hm_remove k (table_rows d)\<rparr>)),
      begin_immediate = (\<lambda>d. let (f, d) = next_fault d in
        if f then Inl ''SQLITE_BUSY'' else Inr (d\<lparr>table_saved := table_rows d\<rparr>)),
      commit = (\<lambda>d. let (f, d) = next_fault d in (if f then Inl ''SQLITE_BUSY'' else Inr (), d)),
      rollback = (\<lambda>d. d\<lparr>table_rows := table_saved d\<rparr>)\<rparr>"

abbreviation table_view :: "table_db \<Rightarrow> rows" where
  "table_view d \<equiv> hm_get (table_rows d)"

abbreviation table_saved_view :: "table_db \<Rightarrow> rows" where
  "table_saved_view d \<equiv> hm_get (table_saved d)"

lemma next_fault_frame [simp]:
  "table_rows (snd (next_fault d)) = table_rows d" "table_saved (snd (next_fault d)) = table_saved d"
  by (simp_all add: next_fault_def split: list.splits)

interpretation table: sqlite table_engine table_view table_saved_view
  by unfold_locales
    (auto simp: table_engine_def Let_def fun_eq_iff hm_simps split_beta split: if_splits)

end
