(* ===== verification/Fetch_Handler.thy ===== *)
theory Fetch_Handler
  imports App_State Database
begin

text \<open>
  \<open>fetch_secret\<close> of \<open>src/handlers/fetch.rs\<close>, which serves \<open>/fetch\<close> and \<open>/trash\<close>, cut at its
  \<open>await\<close> points: validation and the lookup token, the admission block, the wait for a database
  permit, the detached lookup with its finalization, and the answer. \<open>fetch_secret\<close> composes the
  parts for a request that nothing interrupts; the theory \<open>System\<close> interleaves them.
\<close>

section \<open>Validation\<close>

text \<open>The canonical identifier and authentication key, or the early return.\<close>

definition fetch_validate :: "externals \<Rightarrow> FetchSecret \<Rightarrow> Response + string \<times> string" where
  "fetch_validate X request =
     (let identifier = to_lowercase X (fs_identifier request);
          authentication_key = to_lowercase X (fs_authentication_key request)
      in if \<not> is_256bits_hex_hash identifier \<or> \<not> is_256bits_hex_hash authentication_key
         then Inl (plain_response BAD_REQUEST
                (error_body ''identifier or authentication_key are not 256 bits HEX hashes''))
         else Inr (identifier, authentication_key))"

text \<open>
  What the handler does up to the lock of the rate-limit map: an early return, the panic of
  the \<open>expect\<close> on \<open>identifier_hash\<close>, or the bucket key and the candidate tag to admit.
\<close>

datatype fetch_entry = Entry_Response Response | Entry_Panic | Entry_Admit string CandidateTag

definition fetch_entry_step ::
  "externals \<Rightarrow> FetchSecret \<Rightarrow> instant \<Rightarrow> AppState \<Rightarrow> fetch_entry \<times> AppState" where
  "fetch_entry_step X request now st =
     (case fetch_validate X request of
        Inl response \<Rightarrow> (Entry_Response response, st)
      | Inr (identifier, authentication_key) \<Rightarrow>
          (case identifier_hash X identifier of
             None \<Rightarrow> (Entry_Panic, st)
           | Some id_hash \<Rightarrow>
               (let (ok, st') = take_lookup_token now st
                in if \<not> ok
                   then (Entry_Response (retry_after_response SERVICE_UNAVAILABLE
                           GLOBAL_OVERLOAD_RETRY_AFTER_SECS ''Too many lookup requests, retry later''), st')
                   else (Entry_Admit id_hash
                           (generate_secret_id X identifier authentication_key), st'))))"

section \<open>An admitted request\<close>

text \<open>The locals of the handler after admission.\<close>

record Ticket =
  tk_id_hash :: string
  tk_candidate :: CandidateTag
  tk_generation :: DateTime
  tk_requested_at :: DateTime
  tk_status :: AttemptStatus
  tk_is_new :: bool
  tk_is_trash :: bool

definition pending_response :: Response where
  "pending_response = retry_after_response SERVICE_UNAVAILABLE GLOBAL_OVERLOAD_RETRY_AFTER_SECS
     ''Candidate lookup pending, retry later''"

definition database_busy_response :: Response where
  "database_busy_response = retry_after_response SERVICE_UNAVAILABLE GLOBAL_OVERLOAD_RETRY_AFTER_SECS
     ''Database busy, retry later''"

definition internal_error_response :: Response where
  "internal_error_response = plain_response INTERNAL_SERVER_ERROR (error_body ''Internal server error'')"

definition make_ticket ::
  "string \<Rightarrow> CandidateTag \<Rightarrow> DateTime \<Rightarrow> bool \<Rightarrow> Admission \<Rightarrow> Ticket option" where
  "make_ticket id_hash candidate requested_at is_trash a =
     (case a of
        New s generation \<Rightarrow> Some
          \<lparr>tk_id_hash = id_hash, tk_candidate = candidate, tk_generation = generation,
           tk_requested_at = requested_at, tk_status = s, tk_is_new = True, tk_is_trash = is_trash\<rparr>
      | Replay s generation \<Rightarrow> Some
          \<lparr>tk_id_hash = id_hash, tk_candidate = candidate, tk_generation = generation,
           tk_requested_at = requested_at, tk_status = s, tk_is_new = False, tk_is_trash = is_trash\<rparr>
      | PendingDuplicate \<Rightarrow> None)"

text \<open>\<open>remove_pending_async\<close> for the ticket, what the guard and the timeout path run.\<close>

definition release_ticket :: "Ticket \<Rightarrow> AppState \<Rightarrow> AppState" where
  "release_ticket tk st =
     with_map (remove_pending (tk_id_hash tk) (tk_candidate tk) (tk_generation tk)) st"

text \<open>The timeout path: the reservation is removed when the guard exists.\<close>

definition permit_timeout_step :: "Ticket \<Rightarrow> AppState \<Rightarrow> AppState" where
  "permit_timeout_step tk st = (if tk_is_new tk then release_ticket tk st else st)"

section \<open>The detached lookup\<close>

text \<open>The blocking closure: a failed connection is a panic, seen as a join error.\<close>

definition blocking_lookup ::
  "'db engine \<Rightarrow> bool \<Rightarrow> string \<Rightarrow> 'db \<Rightarrow> LookupResult \<times> 'db" where
  "blocking_lookup E is_trashing_secret key_id d =
     (case establish_connection E d of
        None \<Rightarrow> (Inl (Join ''Error connecting to database''), d)
      | Some d1 \<Rightarrow>
          (let (result, d2) =
             (if is_trashing_secret then read_and_trash_secret_by_id E key_id d1
              else (read_secret_by_id E key_id d1, d1))
           in (case result of Inl e \<Rightarrow> (Inl (Database e), d2) | Inr r \<Rightarrow> (Inr r, d2))))"

definition finalize_ticket :: "Ticket \<Rightarrow> LookupResult \<Rightarrow> AppState \<Rightarrow> AppState" where
  "finalize_ticket tk result st =
     (if tk_is_new tk
      then with_map (finalize (tk_id_hash tk) (tk_candidate tk) (tk_generation tk) result) st
      else st)"

text \<open>
  The branch for a task that never returned: the reservation is removed and the answer is a \<open>500\<close>.
  Nothing in the task can panic and nothing aborts it, so the machine of the theory \<open>System\<close> has no
  event for it.
\<close>

definition join_error_step :: "Ticket \<Rightarrow> AppState \<Rightarrow> Response \<times> AppState" where
  "join_error_step tk st =
     (internal_error_response, if tk_is_new tk then release_ticket tk st else st)"

section \<open>The answer\<close>

definition fetch_answer :: "AppState \<Rightarrow> Ticket \<Rightarrow> LookupResult \<Rightarrow> Response" where
  "fetch_answer st tk result =
     (case result of
        Inl (Database _) \<Rightarrow> internal_error_response
      | Inl (Join _) \<Rightarrow> internal_error_response
      | Inr (Some key) \<Rightarrow>
          plain_response (if tk_is_trash tk then ACCEPTED else OK) (Released key (tk_status tk))
      | Inr None \<Rightarrow>
          plain_response UNAUTHORIZED (FailedAttempt
            \<lparr>rf_error = ''Invalid identifier/authentication_key'',
             rf_requested_at = tk_requested_at tk,
             rf_rate_limit_cooldown = cooldown_minutes st,
             rf_attempts = as_total_attempts (tk_status tk),
             rf_total_requests = as_total_requests (tk_status tk)\<rparr>))"

section \<open>The handler, uninterrupted\<close>

text \<open>
  \<open>now\<close> is the instant of the token bucket, \<open>requested_at\<close> the wall clock, \<open>permit\<close> whether a
  permit came within \<open>DATABASE_PERMIT_TIMEOUT\<close>. The result \<open>None\<close> is a panic.
\<close>

definition run_ticket ::
  "'db engine \<Rightarrow> bool \<Rightarrow> Ticket \<Rightarrow> AppState \<Rightarrow> 'db \<Rightarrow> Response \<times> AppState \<times> 'db" where
  "run_ticket E permit tk st d =
     (if \<not> permit then (database_busy_response, permit_timeout_step tk st, d)
      else
        (let (result, d') = blocking_lookup E (tk_is_trash tk) (tk_candidate tk) d;
             st' = finalize_ticket tk result st
         in (fetch_answer st' tk result, st', d')))"

definition fetch_secret ::
  "externals \<Rightarrow> 'db engine \<Rightarrow> bool \<Rightarrow> FetchSecret \<Rightarrow> instant \<Rightarrow> DateTime \<Rightarrow> bool
     \<Rightarrow> AppState \<Rightarrow> 'db \<Rightarrow> Response option \<times> AppState \<times> 'db" where
  "fetch_secret X E is_trashing_secret request now requested_at permit st d =
     (case fetch_entry_step X request now st of
        (Entry_Response response, st1) \<Rightarrow> (Some response, st1, d)
      | (Entry_Panic, st1) \<Rightarrow> (None, st1, d)
      | (Entry_Admit id_hash candidate, st1) \<Rightarrow>
          (case admit_state st1 id_hash candidate requested_at of
             (AdmitPanic, st2) \<Rightarrow> (None, st2, d)
           | (Rejected response, st2) \<Rightarrow> (Some response, st2, d)
           | (Admitted a, st2) \<Rightarrow>
               (case make_ticket id_hash candidate requested_at is_trashing_secret a of
                  None \<Rightarrow> (Some pending_response, st2, d)
                | Some tk \<Rightarrow>
                    (let (response, st3, d') = run_ticket E permit tk st2 d
                     in (Some response, st3, d')))))"

end
