(* ===== verification/Store_Handler.thy ===== *)
theory Store_Handler
  imports Fetch_Handler
begin

text \<open>
  \<open>store_secret\<close> of \<open>src/handlers/store.rs\<close>: validation in the order of the code (the cheap
  length check before the base64 decoding), the store token, the row, the wait for a permit, the
  blocking write and the answer.
\<close>

fun show_nat :: "nat \<Rightarrow> string" where
  "show_nat n = (if n < 10 then [char_of (48 + n)] else show_nat (n div 10) @ [char_of (48 + n mod 10)])"

declare show_nat.simps [simp del]

definition store_validate :: "externals \<Rightarrow> AppState \<Rightarrow> StoreSecret \<Rightarrow> Response + string \<times> string" where
  "store_validate X st request =
     (let authentication_key = to_lowercase X (ss_authentication_key request);
          encrypted_secret = ss_encrypted_secret request;
          identifier = to_lowercase X (ss_identifier request)
      in if \<not> is_256bits_hex_hash identifier \<or> \<not> is_256bits_hex_hash authentication_key
         then Inl (plain_response BAD_REQUEST
                (error_body ''identifier or authentication_key are not 256 bits HEX hashes''))
         else if encrypted_secret = []
         then Inl (plain_response BAD_REQUEST (error_body ''encrypted_secret is empty''))
         else if unat (secret_max_length st) < length encrypted_secret
         then Inl (plain_response BAD_REQUEST (error_body
                (''encrypted_secret length exceeds the limit '' @ show_nat (unat (secret_max_length st)))))
         else if \<not> is_base64 X encrypted_secret
         then Inl (plain_response BAD_REQUEST (error_body ''encrypted_secret should be base64 encoded''))
         else Inr (identifier, authentication_key))"

text \<open>Up to the wait for a permit: the early return, or the row to write.\<close>

definition store_entry_step ::
  "externals \<Rightarrow> StoreSecret \<Rightarrow> instant \<Rightarrow> string \<Rightarrow> AppState \<Rightarrow> (Response + Secret) \<times> AppState" where
  "store_entry_step X request now rfc3339_now st =
     (case store_validate X st request of
        Inl response \<Rightarrow> (Inl response, st)
      | Inr (identifier, authentication_key) \<Rightarrow>
          (let (ok, st') = take_store_token now st
           in if \<not> ok
              then (Inl (retry_after_response SERVICE_UNAVAILABLE GLOBAL_OVERLOAD_RETRY_AFTER_SECS
                      ''Too many store requests, retry later''), st')
              else (Inr \<lparr>sec_id = generate_secret_id X identifier authentication_key,
                         sec_created_at = rfc3339_now,
                         sec_encrypted_secret = ss_encrypted_secret request\<rparr>, st')))"

text \<open>The blocking closure: \<open>None\<close> when it panicked.\<close>

definition blocking_write :: "'db engine \<Rightarrow> Secret \<Rightarrow> 'db \<Rightarrow> bool option \<times> 'db" where
  "blocking_write E key d =
     (case establish_connection E d of
        None \<Rightarrow> (None, d)
      | Some d1 \<Rightarrow> (let (is_stored, d2) = write_secret E key d1 in (Some is_stored, d2)))"

definition store_answer :: "bool option \<Rightarrow> Response" where
  "store_answer result =
     (case result of
        None \<Rightarrow> internal_error_response
      | Some True \<Rightarrow> plain_response CREATED Null
      | Some False \<Rightarrow> internal_error_response)"

definition store_secret ::
  "externals \<Rightarrow> 'db engine \<Rightarrow> StoreSecret \<Rightarrow> instant \<Rightarrow> string \<Rightarrow> bool
     \<Rightarrow> AppState \<Rightarrow> 'db \<Rightarrow> Response \<times> AppState \<times> 'db" where
  "store_secret X E request now rfc3339_now permit st d =
     (case store_entry_step X request now rfc3339_now st of
        (Inl response, st1) \<Rightarrow> (response, st1, d)
      | (Inr key, st1) \<Rightarrow>
          if \<not> permit then (database_busy_response, st1, d)
          else (let (result, d') = blocking_write E key d in (store_answer result, st1, d')))"

end
