(* ===== verification/Machine.thy ===== *)
theory Machine
  imports Main
begin

text \<open>
  Guarded state machines: a step function that gives \<open>None\<close> when the event is not enabled, its
  runs and its reachable states, and the locale \<open>guarded_machine\<close> of a machine with an invariant.
\<close>

fun guarded_run :: "('e \<Rightarrow> 's \<Rightarrow> 's option) \<Rightarrow> 'e list \<Rightarrow> 's \<Rightarrow> 's option" where
  "guarded_run step [] s = Some s"
| "guarded_run step (e # es) s =
     (case step e s of None \<Rightarrow> None | Some t \<Rightarrow> guarded_run step es t)"

inductive reach :: "('e \<Rightarrow> 's \<Rightarrow> 's option) \<Rightarrow> 's \<Rightarrow> 's \<Rightarrow> bool" for step and s where
  reach_start: "reach step s s"
| reach_step: "reach step s t \<Longrightarrow> step e t = Some u \<Longrightarrow> reach step s u"

lemma guarded_run_reach: "reach step s0 s \<Longrightarrow> guarded_run step es s = Some t \<Longrightarrow> reach step s0 t"
  by (induction es arbitrary: s) (auto split: option.splits intro: reach_step)

lemma guarded_run_append:
  "guarded_run step (es @ fs) s =
     (case guarded_run step es s of None \<Rightarrow> None | Some t \<Rightarrow> guarded_run step fs t)"
  by (induction es arbitrary: s) (auto split: option.splits)

lemma reach_guarded_run: "reach step s t \<longleftrightarrow> (\<exists>es. guarded_run step es s = Some t)"
proof
  show "reach step s t \<Longrightarrow> \<exists>es. guarded_run step es s = Some t"
  proof (induction rule: reach.induct)
    case reach_start
    show ?case by (rule exI [of _ "[]"]) simp
  next
    case (reach_step t e u)
    then obtain es where "guarded_run step es s = Some t" by blast
    with reach_step.hyps(2) have "guarded_run step (es @ [e]) s = Some u"
      by (simp add: guarded_run_append)
    then show ?case by blast
  qed
  show "\<exists>es. guarded_run step es s = Some t \<Longrightarrow> reach step s t"
    by (auto intro: guarded_run_reach reach_start)
qed

locale guarded_machine =
  fixes step :: "'e \<Rightarrow> 's \<Rightarrow> 's option"
    and inv :: "'s \<Rightarrow> bool"
  assumes step_inv: "inv s \<Longrightarrow> step e s = Some t \<Longrightarrow> inv t"
begin

lemma reach_inv: "reach step s t \<Longrightarrow> inv s \<Longrightarrow> inv t"
  by (induction rule: reach.induct) (auto dest: step_inv)

lemma run_inv: "guarded_run step es s = Some t \<Longrightarrow> inv s \<Longrightarrow> inv t"
  using reach_inv reach_guarded_run by metis

end

end
