(* ===== verification/System.thy ===== *)
theory System
  imports Store_Handler Machine
begin

text \<open>
  The server as a state machine: the shared memory, the database, the two clocks and the
  requests in flight, each at one of the \<open>await\<close> points of its handler. One event is one critical
  section: what runs while a mutex is held, a blocking database closure, or a decision of the
  environment (a permit, a timeout, a client that goes away, the sweeper, a snapshot). An event
  that is not enabled gives \<open>None\<close>.
\<close>

section \<open>Requests in flight\<close>

text \<open>
  \<open>Querying\<close> and \<open>Finalizing\<close> are the two halves of the detached task; their flag says whether
  the handler still awaits it. \<open>Deferred_Removal\<close> is the task spawned by a guard that was dropped
  while the map was locked.
\<close>

datatype phase =
    Received FetchSecret bool
  | Stamped string CandidateTag DateTime bool
  | Permit_Wait Ticket
  | Permit_Timeout Ticket
  | Deferred_Removal Ticket
  | Querying Ticket bool
  | Finalizing Ticket LookupResult bool
  | Answering Ticket LookupResult
  | Store_Received StoreSecret
  | Store_Permit_Wait Secret
  | Store_Writing Secret bool
  | Store_Answering "bool option"
  | Responded Response
  | Panicked
  | Gone

text \<open>
  \<open>answers\<close> is a history: every lookup the database answered, with the ticket it was made for.
\<close>

record 'db System =
  wall :: DateTime
  mono :: instant
  app :: AppState
  db :: 'db
  jobs :: "(nat, phase) hash_map"
  answers :: "(Ticket \<times> Secret option) list"

datatype event =
    Tick nat
  | Arrive_Fetch nat FetchSecret bool
  | Arrive_Store nat StoreSecret
  | Lookup_Token nat
  | Admit nat
  | Permit_Granted nat
  | Permit_Timed_Out nat
  | Timeout_Cleanup nat
  | Cancel nat bool
  | Run_Deferred nat
  | Query nat
  | Finalize nat
  | Answer nat
  | Store_Token nat string
  | Store_Permit nat
  | Store_Permit_Timed_Out nat
  | Store_Write nat
  | Store_Answer nat
  | Sweep nat
  | Snapshot_Retain nat

section \<open>The steps\<close>

text \<open>The \<open>TimeoutLayer\<close> of \<open>src/router.rs\<close> drops a handler this long after its start.\<close>

definition REQUEST_TIMEOUT :: TimeDelta where
  "REQUEST_TIMEOUT = 30 * nanos_per_second"

lemma REQUEST_TIMEOUT_nonneg [simp]: "0 \<le> REQUEST_TIMEOUT"
  by (simp add: REQUEST_TIMEOUT_def)

definition set_job :: "nat \<Rightarrow> phase \<Rightarrow> 'db System \<Rightarrow> 'db System" where
  "set_job j p s = s\<lparr>jobs := hm_insert j p (jobs s)\<rparr>"

definition step_tick :: "nat \<Rightarrow> 'db System \<Rightarrow> 'db System option" where
  "step_tick n s = Some (s\<lparr>wall := wall s + int n, mono := mono s + n\<rparr>)"

definition step_arrive :: "nat \<Rightarrow> phase \<Rightarrow> 'db System \<Rightarrow> 'db System option" where
  "step_arrive j p s = (if hm_get (jobs s) j = None then Some (set_job j p s) else None)"

text \<open>Validation, the lookup token and the reading of the clock: no \<open>await\<close> separates the last two.\<close>

definition step_lookup_token :: "externals \<Rightarrow> nat \<Rightarrow> 'db System \<Rightarrow> 'db System option" where
  "step_lookup_token X j s =
     (case hm_get (jobs s) j of
        Some (Received request is_trash) \<Rightarrow>
          (let (r, st) = fetch_entry_step X request (mono s) (app s);
               p = (case r of
                      Entry_Response response \<Rightarrow> Responded response
                    | Entry_Panic \<Rightarrow> Panicked
                    | Entry_Admit id_hash candidate \<Rightarrow> Stamped id_hash candidate (wall s) is_trash)
           in Some (set_job j p (s\<lparr>app := st\<rparr>)))
      | _ \<Rightarrow> None)"

text \<open>
  The admission block, under the lock. The handler runs it at most \<open>REQUEST_TIMEOUT\<close> after the
  timestamp it took before waiting for the lock.
\<close>

definition phase_after_admission :: "string \<Rightarrow> CandidateTag \<Rightarrow> DateTime \<Rightarrow> bool \<Rightarrow> admit_result \<Rightarrow> phase" where
  "phase_after_admission id_hash candidate requested_at is_trash r =
     (case r of
        Rejected response \<Rightarrow> Responded response
      | AdmitPanic \<Rightarrow> Panicked
      | Admitted a \<Rightarrow>
          (case make_ticket id_hash candidate requested_at is_trash a of
             None \<Rightarrow> Responded pending_response
           | Some tk \<Rightarrow> Permit_Wait tk))"

definition step_admit :: "nat \<Rightarrow> 'db System \<Rightarrow> 'db System option" where
  "step_admit j s =
     (case hm_get (jobs s) j of
        Some (Stamped id_hash candidate requested_at is_trash) \<Rightarrow>
          if wall s - requested_at \<le> REQUEST_TIMEOUT
          then (let (r, st) = admit_state (app s) id_hash candidate requested_at
                in Some (set_job j (phase_after_admission id_hash candidate requested_at is_trash r)
                          (s\<lparr>app := st\<rparr>)))
          else None
      | _ \<Rightarrow> None)"

definition acquire_permit :: "AppState \<Rightarrow> AppState" where
  "acquire_permit st = st\<lparr>database_semaphore := database_semaphore st - 1\<rparr>"

definition release_permit :: "AppState \<Rightarrow> AppState" where
  "release_permit st = st\<lparr>database_semaphore := database_semaphore st + 1\<rparr>"

text \<open>A granted permit moves into the spawned task and the guard is disarmed.\<close>

definition step_permit :: "nat \<Rightarrow> 'db System \<Rightarrow> 'db System option" where
  "step_permit j s =
     (case hm_get (jobs s) j of
        Some (Permit_Wait tk) \<Rightarrow>
          if 0 < database_semaphore (app s)
          then Some (set_job j (Querying tk True) (s\<lparr>app := acquire_permit (app s)\<rparr>)) else None
      | _ \<Rightarrow> None)"

text \<open>After the timeout a new candidate still has to wait for the lock; a replay answers at once.\<close>

definition step_permit_timed_out :: "nat \<Rightarrow> 'db System \<Rightarrow> 'db System option" where
  "step_permit_timed_out j s =
     (case hm_get (jobs s) j of
        Some (Permit_Wait tk) \<Rightarrow>
          Some (set_job j (if tk_is_new tk then Permit_Timeout tk else Responded database_busy_response) s)
      | _ \<Rightarrow> None)"

definition step_timeout_cleanup :: "nat \<Rightarrow> 'db System \<Rightarrow> 'db System option" where
  "step_timeout_cleanup j s =
     (case hm_get (jobs s) j of
        Some (Permit_Timeout tk) \<Rightarrow>
          Some (set_job j (Responded database_busy_response) (s\<lparr>app := release_ticket tk (app s)\<rparr>))
      | _ \<Rightarrow> None)"

text \<open>
  A handler future dropped at an \<open>await\<close>: an armed guard removes the reservation at once when it
  gets the lock and otherwise leaves it to a spawned task; a detached task goes on alone.
\<close>

definition drop_guard :: "nat \<Rightarrow> Ticket \<Rightarrow> bool \<Rightarrow> 'db System \<Rightarrow> 'db System" where
  "drop_guard j tk contended s =
     (if \<not> tk_is_new tk then set_job j Gone s
      else if contended then set_job j (Deferred_Removal tk) s
      else set_job j Gone (s\<lparr>app := release_ticket tk (app s)\<rparr>))"

definition step_cancel :: "nat \<Rightarrow> bool \<Rightarrow> 'db System \<Rightarrow> 'db System option" where
  "step_cancel j contended s =
     (case hm_get (jobs s) j of
        Some (Received _ _) \<Rightarrow> Some (set_job j Gone s)
      | Some (Stamped _ _ _ _) \<Rightarrow> Some (set_job j Gone s)
      | Some (Permit_Wait tk) \<Rightarrow> Some (drop_guard j tk contended s)
      | Some (Permit_Timeout tk) \<Rightarrow> Some (drop_guard j tk contended s)
      | Some (Querying tk True) \<Rightarrow> Some (set_job j (Querying tk False) s)
      | Some (Finalizing tk r True) \<Rightarrow> Some (set_job j (Finalizing tk r False) s)
      | Some (Answering _ _) \<Rightarrow> Some (set_job j Gone s)
      | Some (Store_Received _) \<Rightarrow> Some (set_job j Gone s)
      | Some (Store_Permit_Wait _) \<Rightarrow> Some (set_job j Gone s)
      | Some (Store_Writing key True) \<Rightarrow> Some (set_job j (Store_Writing key False) s)
      | Some (Store_Answering _) \<Rightarrow> Some (set_job j Gone s)
      | _ \<Rightarrow> None)"

definition step_run_deferred :: "nat \<Rightarrow> 'db System \<Rightarrow> 'db System option" where
  "step_run_deferred j s =
     (case hm_get (jobs s) j of
        Some (Deferred_Removal tk) \<Rightarrow> Some (set_job j Gone (s\<lparr>app := release_ticket tk (app s)\<rparr>))
      | _ \<Rightarrow> None)"

text \<open>The blocking closure: the lookup, then the permit is dropped with the closure.\<close>

definition record_answer ::
  "Ticket \<Rightarrow> LookupResult \<Rightarrow> (Ticket \<times> Secret option) list \<Rightarrow> (Ticket \<times> Secret option) list" where
  "record_answer tk r h = (case r of Inl _ \<Rightarrow> h | Inr found \<Rightarrow> (tk, found) # h)"

definition step_query :: "'db engine \<Rightarrow> nat \<Rightarrow> 'db System \<Rightarrow> 'db System option" where
  "step_query E j s =
     (case hm_get (jobs s) j of
        Some (Querying tk attached) \<Rightarrow>
          (let (r, d) = blocking_lookup E (tk_is_trash tk) (tk_candidate tk) (db s)
           in Some (set_job j (Finalizing tk r attached)
                (s\<lparr>db := d, app := release_permit (app s), answers := record_answer tk r (answers s)\<rparr>)))
      | _ \<Rightarrow> None)"

definition step_finalize :: "nat \<Rightarrow> 'db System \<Rightarrow> 'db System option" where
  "step_finalize j s =
     (case hm_get (jobs s) j of
        Some (Finalizing tk r attached) \<Rightarrow>
          Some (set_job j (if attached then Answering tk r else Gone)
                 (s\<lparr>app := finalize_ticket tk r (app s)\<rparr>))
      | _ \<Rightarrow> None)"

definition step_answer :: "nat \<Rightarrow> 'db System \<Rightarrow> 'db System option" where
  "step_answer j s =
     (case hm_get (jobs s) j of
        Some (Answering tk r) \<Rightarrow> Some (set_job j (Responded (fetch_answer (app s) tk r)) s)
      | _ \<Rightarrow> None)"

definition step_store_token :: "externals \<Rightarrow> nat \<Rightarrow> string \<Rightarrow> 'db System \<Rightarrow> 'db System option" where
  "step_store_token X j rfc3339_now s =
     (case hm_get (jobs s) j of
        Some (Store_Received request) \<Rightarrow>
          (let (r, st) = store_entry_step X request (mono s) rfc3339_now (app s);
               p = (case r of Inl response \<Rightarrow> Responded response | Inr key \<Rightarrow> Store_Permit_Wait key)
           in Some (set_job j p (s\<lparr>app := st\<rparr>)))
      | _ \<Rightarrow> None)"

definition step_store_permit :: "nat \<Rightarrow> 'db System \<Rightarrow> 'db System option" where
  "step_store_permit j s =
     (case hm_get (jobs s) j of
        Some (Store_Permit_Wait key) \<Rightarrow>
          if 0 < database_semaphore (app s)
          then Some (set_job j (Store_Writing key True) (s\<lparr>app := acquire_permit (app s)\<rparr>)) else None
      | _ \<Rightarrow> None)"

definition step_store_permit_timed_out :: "nat \<Rightarrow> 'db System \<Rightarrow> 'db System option" where
  "step_store_permit_timed_out j s =
     (case hm_get (jobs s) j of
        Some (Store_Permit_Wait _) \<Rightarrow> Some (set_job j (Responded database_busy_response) s)
      | _ \<Rightarrow> None)"

definition step_store_write :: "'db engine \<Rightarrow> nat \<Rightarrow> 'db System \<Rightarrow> 'db System option" where
  "step_store_write E j s =
     (case hm_get (jobs s) j of
        Some (Store_Writing key attached) \<Rightarrow>
          (let (r, d) = blocking_write E key (db s)
           in Some (set_job j (if attached then Store_Answering r else Gone)
                (s\<lparr>db := d, app := release_permit (app s)\<rparr>)))
      | _ \<Rightarrow> None)"

definition step_store_answer :: "nat \<Rightarrow> 'db System \<Rightarrow> 'db System option" where
  "step_store_answer j s =
     (case hm_get (jobs s) j of
        Some (Store_Answering r) \<Rightarrow> Some (set_job j (Responded (store_answer r)) s)
      | _ \<Rightarrow> None)"

text \<open>The sweeper and the snapshot builder read the clock some time before they get the lock.\<close>

definition step_sweep :: "nat \<Rightarrow> 'db System \<Rightarrow> 'db System option" where
  "step_sweep lag s = Some (s\<lparr>app := sweep_state (wall s - int lag) (app s)\<rparr>)"

fun system_step :: "externals \<Rightarrow> 'db engine \<Rightarrow> event \<Rightarrow> 'db System \<Rightarrow> 'db System option" where
  "system_step X E (Tick n) s = step_tick n s"
| "system_step X E (Arrive_Fetch j request is_trash) s = step_arrive j (Received request is_trash) s"
| "system_step X E (Arrive_Store j request) s = step_arrive j (Store_Received request) s"
| "system_step X E (Lookup_Token j) s = step_lookup_token X j s"
| "system_step X E (Admit j) s = step_admit j s"
| "system_step X E (Permit_Granted j) s = step_permit j s"
| "system_step X E (Permit_Timed_Out j) s = step_permit_timed_out j s"
| "system_step X E (Timeout_Cleanup j) s = step_timeout_cleanup j s"
| "system_step X E (Cancel j contended) s = step_cancel j contended s"
| "system_step X E (Run_Deferred j) s = step_run_deferred j s"
| "system_step X E (Query j) s = step_query E j s"
| "system_step X E (Finalize j) s = step_finalize j s"
| "system_step X E (Answer j) s = step_answer j s"
| "system_step X E (Store_Token j t) s = step_store_token X j t s"
| "system_step X E (Store_Permit j) s = step_store_permit j s"
| "system_step X E (Store_Permit_Timed_Out j) s = step_store_permit_timed_out j s"
| "system_step X E (Store_Write j) s = step_store_write E j s"
| "system_step X E (Store_Answer j) s = step_store_answer j s"
| "system_step X E (Sweep lag) s = step_sweep lag s"
| "system_step X E (Snapshot_Retain lag) s = step_sweep lag s"

section \<open>Runs\<close>

abbreviation system_run :: "externals \<Rightarrow> 'db engine \<Rightarrow> event list \<Rightarrow> 'db System \<Rightarrow> 'db System option" where
  "system_run X E \<equiv> guarded_run (system_step X E)"

abbreviation reachable :: "externals \<Rightarrow> 'db engine \<Rightarrow> 'db System \<Rightarrow> 'db System \<Rightarrow> bool" where
  "reachable X E \<equiv> reach (system_step X E)"

text \<open>A server that has just started: no entry, no request, every permit free.\<close>

definition boot :: "AppState \<Rightarrow> DateTime \<Rightarrow> instant \<Rightarrow> 'db \<Rightarrow> 'db System" where
  "boot st w m d =
     \<lparr>wall = w, mono = m, app = st\<lparr>identifier_rate_limit := fmempty\<rparr>, db = d,
      jobs = fmempty, answers = []\<rparr>"

end
