(* ===== verification/Ledger.thy ===== *)
theory Ledger
  imports Fetch_Handler
begin

text \<open>
  The accounting behind the distinct-candidate budget, on the view the concurrency proof needs:
  the wall clock \<open>w\<close>, the rate-limit map \<open>m\<close>, the owners \<open>Q\<close> (which request holds which new
  ticket, and whether the database has answered it) and the answers \<open>H\<close> given so far. Every
  kind of update of the view has one lemma here: time passing, expiry, a touched entry, a new
  reservation, an answer, a commit and a refund. \<open>cd\<close> is the cooldown and \<open>sk\<close> the longest time
  between a request's timestamp and its admission.
\<close>

section \<open>The view and its invariant\<close>

type_synonym owners = "nat \<Rightarrow> (Ticket \<times> bool) option"
type_synonym answers = "(Ticket \<times> Secret option) set"

abbreviation tk_key :: "Ticket \<Rightarrow> string \<times> DateTime \<times> CandidateTag" where
  "tk_key tk \<equiv> (tk_id_hash tk, tk_generation tk, tk_candidate tk)"

text \<open>A new ticket that some request holds or that the database has answered.\<close>

definition held :: "owners \<Rightarrow> answers \<Rightarrow> Ticket \<Rightarrow> bool" where
  "held Q H tk \<longleftrightarrow> (\<exists>j b. Q j = Some (tk, b)) \<or> (tk_is_new tk \<and> (\<exists>r. (tk, r) \<in> H))"

definition live :: "RateLimitMap \<Rightarrow> string \<Rightarrow> DateTime \<Rightarrow> bool" where
  "live m i g \<longleftrightarrow> (\<exists>info. hm_get m i = Some info \<and> window_started_at info = g)"

definition window_candidates :: "owners \<Rightarrow> answers \<Rightarrow> string \<Rightarrow> DateTime \<Rightarrow> CandidateTag set" where
  "window_candidates Q H i g = {tk_candidate tk | tk. held Q H tk \<and> tk_id_hash tk = i \<and> tk_generation tk = g}"

text \<open>Reservations and owners determine each other.\<close>

definition owners_ok :: "RateLimitMap \<Rightarrow> owners \<Rightarrow> bool" where
  "owners_ok m Q \<longleftrightarrow> finite (dom Q) \<and>
     (\<forall>i info c. hm_get m i = Some info \<and> hm_get (candidates info) c = Some Pending \<longrightarrow>
        (\<exists>j tk b. Q j = Some (tk, b) \<and> tk_key tk = (i, window_started_at info, c))) \<and>
     (\<forall>j tk b info. Q j = Some (tk, b) \<and> hm_get m (tk_id_hash tk) = Some info \<and>
        window_started_at info = tk_generation tk \<longrightarrow>
        hm_get (candidates info) (tk_candidate tk) = Some Pending) \<and>
     (\<forall>j tk b j' tk' b'. Q j = Some (tk, b) \<and> Q j' = Some (tk', b') \<and> tk_key tk = tk_key tk' \<longrightarrow> j = j') \<and>
     (\<forall>j tk b. Q j = Some (tk, b) \<longrightarrow> tk_is_new tk)"

text \<open>Answers belong to reservations, and commitments to answers.\<close>

definition answers_ok :: "RateLimitMap \<Rightarrow> owners \<Rightarrow> answers \<Rightarrow> bool" where
  "answers_ok m Q H \<longleftrightarrow> finite H \<and>
     (\<forall>j tk. Q j = Some (tk, False) \<longrightarrow>
        (\<forall>tk' r. (tk', r) \<in> H \<and> tk_is_new tk' \<longrightarrow> tk_key tk' \<noteq> tk_key tk)) \<and>
     (\<forall>j tk. Q j = Some (tk, True) \<longrightarrow> (\<exists>r. (tk, r) \<in> H)) \<and>
     (\<forall>tk r info. (tk, r) \<in> H \<and> tk_is_new tk \<and> hm_get m (tk_id_hash tk) = Some info \<and>
        window_started_at info = tk_generation tk \<longrightarrow> hm_get (candidates info) (tk_candidate tk) \<noteq> None) \<and>
     (\<forall>i info c. hm_get m i = Some info \<and> hm_get (candidates info) c = Some Committed \<longrightarrow>
        (\<exists>tk r. (tk, r) \<in> H \<and> tk_is_new tk \<and> tk_key tk = (i, window_started_at info, c)))"

text \<open>Timestamps of live windows are recent, those of dead windows are a cooldown old.\<close>

definition times_ok :: "TimeDelta \<Rightarrow> TimeDelta \<Rightarrow> DateTime \<Rightarrow> RateLimitMap \<Rightarrow> owners \<Rightarrow> answers \<Rightarrow> bool" where
  "times_ok cd sk w m Q H \<longleftrightarrow>
     (\<forall>i info. hm_get m i = Some info \<longrightarrow>
        window_started_at info \<le> w \<and> window_started_at info \<le> last_candidate_at info + sk) \<and>
     (\<forall>tk info. held Q H tk \<and> hm_get m (tk_id_hash tk) = Some info \<and>
        window_started_at info = tk_generation tk \<longrightarrow> tk_requested_at tk \<le> last_candidate_at info + sk) \<and>
     (\<forall>tk. held Q H tk \<longrightarrow> tk_requested_at tk \<le> w) \<and>
     (\<forall>tk. held Q H tk \<and> \<not> live m (tk_id_hash tk) (tk_generation tk) \<longrightarrow>
        tk_requested_at tk + cd < w + sk \<and> tk_generation tk + cd < w + sk)"

text \<open>Two windows of one identifier are a cooldown apart; a window holds at most the budget.\<close>

definition windows_ok :: "TimeDelta \<Rightarrow> TimeDelta \<Rightarrow> nat \<Rightarrow> owners \<Rightarrow> answers \<Rightarrow> bool" where
  "windows_ok cd sk budget Q H \<longleftrightarrow>
     (\<forall>tk tk'. held Q H tk \<and> held Q H tk' \<and> tk_id_hash tk = tk_id_hash tk' \<and>
        tk_generation tk \<noteq> tk_generation tk' \<longrightarrow>
        tk_requested_at tk + cd < tk_requested_at tk' + 2 * sk \<or>
        tk_requested_at tk' + cd < tk_requested_at tk + 2 * sk) \<and>
     (\<forall>i g. card (window_candidates Q H i g) \<le> budget)"

definition ledger_ok ::
  "TimeDelta \<Rightarrow> TimeDelta \<Rightarrow> u8 \<Rightarrow> usize \<Rightarrow> DateTime \<Rightarrow> RateLimitMap \<Rightarrow> owners \<Rightarrow> answers \<Rightarrow> bool" where
  "ledger_ok cd sk a b w m Q H \<longleftrightarrow>
     map_wf a b m \<and> owners_ok m Q \<and> answers_ok m Q H \<and> times_ok cd sk w m Q H \<and>
     windows_ok cd sk (unat a) Q H"

lemmas ledger_defs = ledger_ok_def owners_ok_def answers_ok_def times_ok_def windows_ok_def

lemma ledger_okD:
  assumes "ledger_ok cd sk a b w m Q H"
  shows "map_wf a b m" "owners_ok m Q" "answers_ok m Q H" "times_ok cd sk w m Q H"
    "windows_ok cd sk (unat a) Q H"
  using assms by (auto simp: ledger_ok_def)

lemma owners_okD:
  assumes "owners_ok m Q"
  shows "finite (dom Q)"
    and "hm_get m i = Some info \<Longrightarrow> hm_get (candidates info) c = Some Pending \<Longrightarrow>
      \<exists>j tk b. Q j = Some (tk, b) \<and> tk_key tk = (i, window_started_at info, c)"
    and "Q j = Some (tk, b) \<Longrightarrow> hm_get m (tk_id_hash tk) = Some info \<Longrightarrow>
      window_started_at info = tk_generation tk \<Longrightarrow> hm_get (candidates info) (tk_candidate tk) = Some Pending"
    and "Q j = Some (tk, b) \<Longrightarrow> Q j' = Some (tk', b') \<Longrightarrow> tk_key tk = tk_key tk' \<Longrightarrow> j = j'"
    and "Q j = Some (tk, b) \<Longrightarrow> tk_is_new tk"
  using assms unfolding owners_ok_def by blast+

lemma answers_okD:
  assumes "answers_ok m Q H"
  shows "finite H"
    and "Q j = Some (tk, False) \<Longrightarrow> (tk', r) \<in> H \<Longrightarrow> tk_is_new tk' \<Longrightarrow> tk_key tk' \<noteq> tk_key tk"
    and "Q j = Some (tk, True) \<Longrightarrow> \<exists>r. (tk, r) \<in> H"
    and "(tk, r) \<in> H \<Longrightarrow> tk_is_new tk \<Longrightarrow> hm_get m (tk_id_hash tk) = Some info \<Longrightarrow>
      window_started_at info = tk_generation tk \<Longrightarrow> hm_get (candidates info) (tk_candidate tk) \<noteq> None"
    and "hm_get m i = Some info \<Longrightarrow> hm_get (candidates info) c = Some Committed \<Longrightarrow>
      \<exists>tk r. (tk, r) \<in> H \<and> tk_is_new tk \<and> tk_key tk = (i, window_started_at info, c)"
  using assms unfolding answers_ok_def by blast+

lemma times_okD:
  assumes "times_ok cd sk w m Q H"
  shows "hm_get m i = Some info \<Longrightarrow> window_started_at info \<le> w"
    and "hm_get m i = Some info \<Longrightarrow> window_started_at info \<le> last_candidate_at info + sk"
    and "held Q H tk \<Longrightarrow> hm_get m (tk_id_hash tk) = Some info \<Longrightarrow>
      window_started_at info = tk_generation tk \<Longrightarrow> tk_requested_at tk \<le> last_candidate_at info + sk"
    and "held Q H tk \<Longrightarrow> tk_requested_at tk \<le> w"
    and "held Q H tk \<Longrightarrow> \<not> live m (tk_id_hash tk) (tk_generation tk) \<Longrightarrow>
      tk_requested_at tk + cd < w + sk \<and> tk_generation tk + cd < w + sk"
  using assms unfolding times_ok_def by blast+

lemma windows_okD:
  assumes "windows_ok cd sk n Q H"
  shows "held Q H tk \<Longrightarrow> held Q H tk' \<Longrightarrow> tk_id_hash tk = tk_id_hash tk' \<Longrightarrow>
      tk_generation tk \<noteq> tk_generation tk' \<Longrightarrow>
      tk_requested_at tk + cd < tk_requested_at tk' + 2 * sk \<or>
      tk_requested_at tk' + cd < tk_requested_at tk + 2 * sk"
    and "card (window_candidates Q H i g) \<le> n"
  using assms unfolding windows_ok_def by blast+

lemma owners_okI:
  assumes "finite (dom Q)"
    and "\<And>i info c. hm_get m i = Some info \<Longrightarrow> hm_get (candidates info) c = Some Pending \<Longrightarrow>
      \<exists>j tk b. Q j = Some (tk, b) \<and> tk_key tk = (i, window_started_at info, c)"
    and "\<And>j tk b info. Q j = Some (tk, b) \<Longrightarrow> hm_get m (tk_id_hash tk) = Some info \<Longrightarrow>
      window_started_at info = tk_generation tk \<Longrightarrow> hm_get (candidates info) (tk_candidate tk) = Some Pending"
    and "\<And>j tk b j' tk' b'. Q j = Some (tk, b) \<Longrightarrow> Q j' = Some (tk', b') \<Longrightarrow> tk_key tk = tk_key tk' \<Longrightarrow> j = j'"
    and "\<And>j tk b. Q j = Some (tk, b) \<Longrightarrow> tk_is_new tk"
  shows "owners_ok m Q"
  unfolding owners_ok_def using assms by blast

lemma answers_okI:
  assumes "finite H"
    and "\<And>j tk tk' r. Q j = Some (tk, False) \<Longrightarrow> (tk', r) \<in> H \<Longrightarrow> tk_is_new tk' \<Longrightarrow> tk_key tk' \<noteq> tk_key tk"
    and "\<And>j tk. Q j = Some (tk, True) \<Longrightarrow> \<exists>r. (tk, r) \<in> H"
    and "\<And>tk r info. (tk, r) \<in> H \<Longrightarrow> tk_is_new tk \<Longrightarrow> hm_get m (tk_id_hash tk) = Some info \<Longrightarrow>
      window_started_at info = tk_generation tk \<Longrightarrow> hm_get (candidates info) (tk_candidate tk) \<noteq> None"
    and "\<And>i info c. hm_get m i = Some info \<Longrightarrow> hm_get (candidates info) c = Some Committed \<Longrightarrow>
      \<exists>tk r. (tk, r) \<in> H \<and> tk_is_new tk \<and> tk_key tk = (i, window_started_at info, c)"
  shows "answers_ok m Q H"
  unfolding answers_ok_def using assms by blast

lemma times_okI:
  assumes "\<And>i info. hm_get m i = Some info \<Longrightarrow>
      window_started_at info \<le> w \<and> window_started_at info \<le> last_candidate_at info + sk"
    and "\<And>tk info. held Q H tk \<Longrightarrow> hm_get m (tk_id_hash tk) = Some info \<Longrightarrow>
      window_started_at info = tk_generation tk \<Longrightarrow> tk_requested_at tk \<le> last_candidate_at info + sk"
    and "\<And>tk. held Q H tk \<Longrightarrow> tk_requested_at tk \<le> w"
    and "\<And>tk. held Q H tk \<Longrightarrow> \<not> live m (tk_id_hash tk) (tk_generation tk) \<Longrightarrow>
      tk_requested_at tk + cd < w + sk \<and> tk_generation tk + cd < w + sk"
  shows "times_ok cd sk w m Q H"
  unfolding times_ok_def using assms by blast

lemma windows_okI:
  assumes "\<And>tk tk'. held Q H tk \<Longrightarrow> held Q H tk' \<Longrightarrow> tk_id_hash tk = tk_id_hash tk' \<Longrightarrow>
      tk_generation tk \<noteq> tk_generation tk' \<Longrightarrow>
      tk_requested_at tk + cd < tk_requested_at tk' + 2 * sk \<or>
      tk_requested_at tk' + cd < tk_requested_at tk + 2 * sk"
    and "\<And>i g. card (window_candidates Q H i g) \<le> n"
  shows "windows_ok cd sk n Q H"
  unfolding windows_ok_def using assms by blast

text \<open>Every held ticket of a live window has its candidate in the entry.\<close>

lemma held_in_entry:
  assumes "owners_ok m Q" "answers_ok m Q H" "held Q H tk"
    and "hm_get m (tk_id_hash tk) = Some info" "window_started_at info = tk_generation tk"
  shows "hm_get (candidates info) (tk_candidate tk) \<noteq> None"
  using assms(3) owners_okD(3) [OF assms(1) _ assms(4,5)] answers_okD(4) [OF assms(2) _ _ assms(4,5)]
  by (auto simp: held_def)

lemma finite_held:
  assumes "finite (dom Q)" "finite H"
  shows "finite {tk. held Q H tk}"
proof (rule finite_subset)
  show "{tk. held Q H tk} \<subseteq> (fst \<circ> the \<circ> Q) ` dom Q \<union> fst ` H"
    by (force simp: held_def image_iff)
  show "finite ((fst \<circ> the \<circ> Q) ` dom Q \<union> fst ` H)" using assms by simp
qed

lemma finite_window_candidates:
  "finite (dom Q) \<Longrightarrow> finite H \<Longrightarrow> finite (window_candidates Q H i g)"
  by (rule finite_subset [of _ "tk_candidate ` {tk. held Q H tk}"])
    (auto simp: window_candidates_def finite_held)

text \<open>When nothing is added to the held tickets, the windows stay within their bounds.\<close>

lemma windows_ok_mono:
  assumes "windows_ok cd sk n Q H" "finite (dom Q)" "finite H" "\<And>tk. held Q' H' tk \<Longrightarrow> held Q H tk"
  shows "windows_ok cd sk n Q' H'"
proof (rule windows_okI)
  show "card (window_candidates Q' H' i g) \<le> n" for i g
  proof -
    have "window_candidates Q' H' i g \<subseteq> window_candidates Q H i g"
      using assms(4) by (auto simp: window_candidates_def)
    then show ?thesis
      using card_mono [OF finite_window_candidates [OF assms(2,3)]] windows_okD(2) [OF assms(1)]
      by (meson order_trans)
  qed
qed (use assms(4) windows_okD(1) [OF assms(1)] in blast)

end
