(* ===== verification/Ledger_Steps.thy ===== *)
theory Ledger_Steps
  imports Ledger
begin

text \<open>
  One lemma for each way the view of \<open>Ledger\<close> changes. Each shows that \<open>ledger_ok\<close> survives; the
  theory \<open>System_Safety\<close> matches the events of the server to them.
\<close>

section \<open>Time and expiry\<close>

lemma times_ok_tick: "times_ok cd sk w m Q H \<Longrightarrow> w \<le> w' \<Longrightarrow> times_ok cd sk w' m Q H"
  by (rule times_okI) (use times_okD [of cd sk w m Q H] in \<open>fastforce\<close>)+

lemma ledger_tick: "ledger_ok cd sk a b w m Q H \<Longrightarrow> w \<le> w' \<Longrightarrow> ledger_ok cd sk a b w' m Q H"
  using times_ok_tick by (auto simp: ledger_ok_def)

text \<open>An update that only removes entries whose last candidate is a cooldown old.\<close>

definition expires :: "TimeDelta \<Rightarrow> DateTime \<Rightarrow> RateLimitMap \<Rightarrow> RateLimitMap \<Rightarrow> bool" where
  "expires cd w m m' \<longleftrightarrow>
     (\<forall>i info. hm_get m' i = Some info \<longrightarrow> hm_get m i = Some info) \<and>
     (\<forall>i info. hm_get m i = Some info \<and> hm_get m' i = None \<longrightarrow> last_candidate_at info + cd < w)"

lemma expires_refl: "expires cd w m m"
  by (auto simp: expires_def)

lemma expires_trans: "expires cd w m m' \<Longrightarrow> expires cd w m' m'' \<Longrightarrow> expires cd w m m''"
  unfolding expires_def by (metis not_None_eq)

lemma expires_retain: "now \<le> w \<Longrightarrow> expires cd w m (hm_retain (active cd now) m)"
  by (auto simp: expires_def hm_simps active_def split: option.splits if_splits)

lemma expires_sweep: "now \<le> w \<Longrightarrow> expires cd w m (sweep_expired_identifiers cd now m)"
  by (simp add: sweep_expired_identifiers_def expires_retain)

lemma expires_drop: "now \<le> w \<Longrightarrow> expires cd w m (drop_expired cd i now m)"
  by (auto simp: expires_def drop_expired_def hm_simps split: option.splits if_splits)

lemma expires_make_room: "now \<le> w \<Longrightarrow> expires cd w m (snd (make_room cd b i now m))"
  by (simp add: make_room_def Let_def expires_retain expires_refl)

lemma expires_live: "expires cd w m m' \<Longrightarrow> live m' i g \<Longrightarrow> live m i g"
  by (auto simp: expires_def live_def)

lemma ledger_expire:
  assumes L: "ledger_ok cd sk a b w m Q H" and x: "expires cd w m m'" and wf: "map_wf a b m'"
  shows "ledger_ok cd sk a b w m' Q H"
proof -
  have sub: "hm_get m' i = Some info \<Longrightarrow> hm_get m i = Some info" for i info
    using x by (simp add: expires_def)
  note owners = owners_okD [OF ledger_okD(2) [OF L]] and answers = answers_okD [OF ledger_okD(3) [OF L]]
    and times = times_okD [OF ledger_okD(4) [OF L]]
  have "owners_ok m' Q"
    by (rule owners_okI) (use owners sub in \<open>simp; blast\<close>)+
  moreover have "answers_ok m' Q H"
    by (rule answers_okI) (use answers sub in \<open>simp; blast\<close>)+
  moreover have "times_ok cd sk w m' Q H"
  proof (rule times_okI)
    fix tk assume h: "held Q H tk" and dead: "\<not> live m' (tk_id_hash tk) (tk_generation tk)"
    show "tk_requested_at tk + cd < w + sk \<and> tk_generation tk + cd < w + sk"
    proof (cases "live m (tk_id_hash tk) (tk_generation tk)")
      case False
      then show ?thesis using times(5) [OF h] by blast
    next
      case True
      then obtain info where info: "hm_get m (tk_id_hash tk) = Some info"
          "window_started_at info = tk_generation tk"
        by (auto simp: live_def)
      then have "hm_get m' (tk_id_hash tk) = None"
        using dead sub by (cases "hm_get m' (tk_id_hash tk)") (fastforce simp: live_def)+
      then have "last_candidate_at info + cd < w" using x info by (auto simp: expires_def)
      then show ?thesis using times(2) [OF info(1)] times(3) [OF h info] info(2) by simp
    qed
  qed (use times sub in blast)+
  ultimately show ?thesis using ledger_okD(5) [OF L] wf by (simp add: ledger_ok_def)
qed

section \<open>Requests that reserve nothing\<close>

text \<open>Counting a request changes no candidate, no window and no deadline.\<close>

definition same_window :: "RateLimitInfo \<Rightarrow> RateLimitInfo \<Rightarrow> bool" where
  "same_window info info' \<longleftrightarrow>
     window_started_at info' = window_started_at info \<and>
     last_candidate_at info' = last_candidate_at info \<and> candidates info' = candidates info"

lemma ledger_touch:
  assumes L: "ledger_ok cd sk a b w m Q H" and i: "hm_get m i = Some info"
    and same: "same_window info info'" and wf: "map_wf a b (hm_insert i info' m)"
  shows "ledger_ok cd sk a b w (hm_insert i info' m) Q H"
proof -
  have get: "hm_get (hm_insert i info' m) k = Some v \<Longrightarrow>
      \<exists>u. hm_get m k = Some u \<and> same_window u v" for k v
    using i same by (auto simp: hm_simps same_window_def split: if_splits)
  have live: "live (hm_insert i info' m) k g = live m k g" for k g
    using i same by (auto simp: live_def hm_simps same_window_def)
  note owners = owners_okD [OF ledger_okD(2) [OF L]] and answers = answers_okD [OF ledger_okD(3) [OF L]]
    and times = times_okD [OF ledger_okD(4) [OF L]]
  have "owners_ok (hm_insert i info' m) Q"
  proof (rule owners_okI)
    fix k v c assume "hm_get (hm_insert i info' m) k = Some v" "hm_get (candidates v) c = Some Pending"
    then show "\<exists>j tk b. Q j = Some (tk, b) \<and> tk_key tk = (k, window_started_at v, c)"
      using get owners(2) by (fastforce simp: same_window_def)
  next
    fix j tk b v assume "Q j = Some (tk, b)" "hm_get (hm_insert i info' m) (tk_id_hash tk) = Some v"
      "window_started_at v = tk_generation tk"
    then show "hm_get (candidates v) (tk_candidate tk) = Some Pending"
      using get owners(3) by (fastforce simp: same_window_def)
  qed (use owners in blast)+
  moreover have "answers_ok (hm_insert i info' m) Q H"
  proof (rule answers_okI)
    fix tk r v assume "(tk, r) \<in> H" "tk_is_new tk" "hm_get (hm_insert i info' m) (tk_id_hash tk) = Some v"
      "window_started_at v = tk_generation tk"
    then show "hm_get (candidates v) (tk_candidate tk) \<noteq> None"
      using get answers(4) by (fastforce simp: same_window_def)
  next
    fix k v c assume "hm_get (hm_insert i info' m) k = Some v" "hm_get (candidates v) c = Some Committed"
    then show "\<exists>tk r. (tk, r) \<in> H \<and> tk_is_new tk \<and> tk_key tk = (k, window_started_at v, c)"
      using get answers(5) by (fastforce simp: same_window_def)
  qed (use answers in blast)+
  moreover have "times_ok cd sk w (hm_insert i info' m) Q H"
  proof (rule times_okI, unfold live)
    fix tk v assume "held Q H tk" "hm_get (hm_insert i info' m) (tk_id_hash tk) = Some v"
      "window_started_at v = tk_generation tk"
    then show "tk_requested_at tk \<le> last_candidate_at v + sk"
      using get times(3) by (fastforce simp: same_window_def)
  qed (use get times in \<open>fastforce simp: same_window_def\<close>)+
  ultimately show ?thesis using ledger_okD(5) [OF L] wf by (simp add: ledger_ok_def)
qed

section \<open>Answers\<close>

lemma ledger_answer:
  assumes L: "ledger_ok cd sk a b w m Q H" and j: "Q j = Some (tk, False)"
  shows "ledger_ok cd sk a b w m (Q(j \<mapsto> (tk, True))) (insert (tk, r) H)"
proof -
  let ?Q = "Q(j \<mapsto> (tk, True))" and ?H = "insert (tk, r) H"
  note owners = owners_okD [OF ledger_okD(2) [OF L]] and answers = answers_okD [OF ledger_okD(3) [OF L]]
    and times = times_okD [OF ledger_okD(4) [OF L]]
  have new: "tk_is_new tk" using owners(5) [OF j] .
  have own: "?Q k = Some (t, c) \<Longrightarrow> \<exists>c'. Q k = Some (t, c')" for k t c
    using j by (auto split: if_splits)
  have own': "Q k = Some (t, c) \<Longrightarrow> \<exists>c'. ?Q k = Some (t, c')" for k t c
    using j by (cases "k = j") auto
  have held: "held ?Q ?H t \<longleftrightarrow> held Q H t" for t
  proof
    show "held ?Q ?H t \<Longrightarrow> held Q H t" using own j unfolding held_def by blast
    show "held Q H t \<Longrightarrow> held ?Q ?H t" using own' unfolding held_def by blast
  qed
  have "owners_ok m ?Q"
  proof (rule owners_okI)
    fix i info c assume "hm_get m i = Some info" "hm_get (candidates info) c = Some Pending"
    then show "\<exists>k t c'. ?Q k = Some (t, c') \<and> tk_key t = (i, window_started_at info, c)"
      using owners(2) own' by metis
  next
    show "finite (dom ?Q)" using owners(1) by simp
  next
    show "?Q k = Some (t, c) \<Longrightarrow> ?Q k' = Some (t', c') \<Longrightarrow> tk_key t = tk_key t' \<Longrightarrow> k = k'" for k t c k' t' c'
      using own owners(4) by metis
  qed (use own owners in blast)+
  moreover have "answers_ok m ?Q ?H"
  proof (rule answers_okI)
    fix k t t' r' assume *: "?Q k = Some (t, False)" "(t', r') \<in> ?H" "tk_is_new t'"
    then have "k \<noteq> j" "Q k = Some (t, False)" by (auto split: if_splits)
    with * show "tk_key t' \<noteq> tk_key t"
      using owners(4) [OF j, of k t False] answers(2) [of k t t' r'] by auto
  next
    fix t r' info assume "(t, r') \<in> ?H" "tk_is_new t" "hm_get m (tk_id_hash t) = Some info"
      "window_started_at info = tk_generation t"
    then show "hm_get (candidates info) (tk_candidate t) \<noteq> None"
      using owners(3) [OF j] answers(4) by auto
  next
    fix i info c assume "hm_get m i = Some info" "hm_get (candidates info) c = Some Committed"
    then show "\<exists>t r'. (t, r') \<in> ?H \<and> tk_is_new t \<and> tk_key t = (i, window_started_at info, c)"
      using answers(5) by blast
  next
    fix k t assume "?Q k = Some (t, True)"
    then show "\<exists>r'. (t, r') \<in> ?H" using answers(3) by (cases "k = j") (simp, blast)+
  qed (simp add: answers(1))
  moreover have "times_ok cd sk w m ?Q ?H"
    using ledger_okD(4) [OF L] by (simp only: times_ok_def held)
  moreover have "windows_ok cd sk (unat a) ?Q ?H"
    using windows_ok_mono [OF ledger_okD(5) [OF L] owners(1) answers(1)] held by blast
  ultimately show ?thesis using ledger_okD(1) [OF L] by (simp add: ledger_ok_def)
qed

lemma ledger_answer_replay:
  assumes L: "ledger_ok cd sk a b w m Q H" and old: "\<not> tk_is_new tk"
  shows "ledger_ok cd sk a b w m Q (insert (tk, r) H)"
proof -
  have held: "held Q (insert (tk, r) H) t \<longleftrightarrow> held Q H t" for t
    using old by (auto simp: held_def)
  have "answers_ok m Q (insert (tk, r) H)"
    using ledger_okD(3) [OF L] old unfolding answers_ok_def by (auto; blast)
  then show ?thesis
    using L by (simp add: ledger_ok_def times_ok_def windows_ok_def window_candidates_def held)
qed

section \<open>Owners that finish\<close>

lemma held_drop: "held (Q(j := None)) H t \<Longrightarrow> held Q H t"
  by (auto simp: held_def split: if_splits)

lemma drop_owner_ok:
  assumes "owners_ok m Q"
  shows "finite (dom (Q(j := None)))"
    and "(Q(j := None)) k = Some (t, d) \<Longrightarrow> (Q(j := None)) k' = Some (t', d') \<Longrightarrow>
      tk_key t = tk_key t' \<Longrightarrow> k = k'"
    and "(Q(j := None)) k = Some (t, d) \<Longrightarrow> tk_is_new t"
proof -
  show "finite (dom (Q(j := None)))" using owners_okD(1) [OF assms] by simp
  show "k = k'" if "(Q(j := None)) k = Some (t, d)" "(Q(j := None)) k' = Some (t', d')"
    "tk_key t = tk_key t'"
    using that by (intro owners_okD(4) [OF assms, of k t d k' t' d']) (auto split: if_splits)
  show "tk_is_new t" if "(Q(j := None)) k = Some (t, d)"
    using that by (intro owners_okD(5) [OF assms, of k t d]) (auto split: if_splits)
qed

lemma remove_pending_stale: "\<not> live m i g \<Longrightarrow> remove_pending i c g m = m"
  by (auto simp: remove_pending_def live_def hm_insert_same split: option.splits)

lemma finalize_stale: "\<not> live m i g \<Longrightarrow> finalize i c g r m = m"
  by (auto simp: finalize_def live_def split: option.splits)

lemma remove_pending_live:
  assumes "hm_get m i = Some info" "window_started_at info = g"
    "hm_get (candidates info) c = Some Pending"
  shows "remove_pending i c g m =
    (if hm_len (hm_remove c (candidates info)) = 0 then hm_remove i m
     else hm_insert i (info\<lparr>candidates := hm_remove c (candidates info)\<rparr>) m)"
  using assms by (simp add: remove_pending_def)

lemma ledger_drop_stale:
  assumes L: "ledger_ok cd sk a b w m Q H" and j: "Q j = Some (tk, f)"
    and dead: "\<not> live m (tk_id_hash tk) (tk_generation tk)"
  shows "ledger_ok cd sk a b w m (Q(j := None)) H"
proof -
  let ?Q = "Q(j := None)"
  note owners = owners_okD [OF ledger_okD(2) [OF L]] and answers = answers_okD [OF ledger_okD(3) [OF L]]
    and times = times_okD [OF ledger_okD(4) [OF L]]
  have sub: "?Q k = Some x \<Longrightarrow> Q k = Some x" for k x by (simp split: if_splits)
  have "owners_ok m ?Q"
  proof (rule owners_okI)
    fix i info c assume i: "hm_get m i = Some info" and c: "hm_get (candidates info) c = Some Pending"
    obtain k t d where k: "Q k = Some (t, d)" "tk_key t = (i, window_started_at info, c)"
      using owners(2) [OF i c] by blast
    then have "k \<noteq> j" using dead j i by (auto simp: live_def)
    with k show "\<exists>k t d. ?Q k = Some (t, d) \<and> tk_key t = (i, window_started_at info, c)" by auto
  next
    fix k t d info assume "?Q k = Some (t, d)" "hm_get m (tk_id_hash t) = Some info"
      "window_started_at info = tk_generation t"
    then show "hm_get (candidates info) (tk_candidate t) = Some Pending"
      using sub by (intro owners(3)) auto
  qed (fact drop_owner_ok [OF ledger_okD(2) [OF L]])+
  moreover have "answers_ok m ?Q H"
    by (rule answers_okI) (use answers sub in blast)+
  moreover have "times_ok cd sk w m ?Q H"
    by (rule times_okI) (use times held_drop in blast)+
  moreover have "windows_ok cd sk (unat a) ?Q H"
    using windows_ok_mono [OF ledger_okD(5) [OF L] owners(1) answers(1)] held_drop by blast
  ultimately show ?thesis using ledger_okD(1) [OF L] by (simp add: ledger_ok_def)
qed

text \<open>
  The owner of a ticket finishes and its candidate stops being \<open>Pending\<close>: the entry keeps its window,
  its deadline and the other candidates, or disappears.
\<close>

definition settled :: "RateLimitMap \<Rightarrow> Ticket \<Rightarrow> RateLimitInfo \<Rightarrow> RateLimitMap \<Rightarrow> bool" where
  "settled m tk info m' \<longleftrightarrow>
     (\<forall>k v. hm_get m' k = Some v \<longrightarrow>
        k \<noteq> tk_id_hash tk \<and> hm_get m k = Some v \<or>
        k = tk_id_hash tk \<and> window_started_at v = window_started_at info \<and>
        last_candidate_at v = last_candidate_at info \<and>
        hm_get (candidates v) (tk_candidate tk) \<noteq> Some Pending \<and>
        (\<forall>c. c \<noteq> tk_candidate tk \<longrightarrow> hm_get (candidates v) c = hm_get (candidates info) c))"

lemma settled_entry:
  assumes "settled m tk info m'" "hm_get m (tk_id_hash tk) = Some info" "hm_get m' k = Some v"
  obtains u where "hm_get m k = Some u" "window_started_at v = window_started_at u"
    "last_candidate_at v = last_candidate_at u"
    "\<And>c. k \<noteq> tk_id_hash tk \<or> c \<noteq> tk_candidate tk \<Longrightarrow> hm_get (candidates v) c = hm_get (candidates u) c"
    "k = tk_id_hash tk \<Longrightarrow> hm_get (candidates v) (tk_candidate tk) \<noteq> Some Pending"
  using assms unfolding settled_def by metis

lemma settled_owners:
  assumes L: "ledger_ok cd sk a b w m Q H" and j: "Q j = Some (tk, f)"
    and i: "hm_get m (tk_id_hash tk) = Some info" and g: "window_started_at info = tk_generation tk"
    and S: "settled m tk info m'"
  shows "owners_ok m' (Q(j := None))" (is "owners_ok m' ?Q")
proof (rule owners_okI)
  note owners = owners_okD [OF ledger_okD(2) [OF L]]
  fix k v c assume k: "hm_get m' k = Some v" and c: "hm_get (candidates v) c = Some Pending"
  from settled_entry [OF S i k] c obtain u where u: "hm_get m k = Some u" "hm_get (candidates u) c = Some Pending"
      "window_started_at v = window_started_at u" "k = tk_id_hash tk \<longrightarrow> c \<noteq> tk_candidate tk"
    by metis
  obtain l t d where l: "Q l = Some (t, d)" "tk_key t = (k, window_started_at u, c)"
    using owners(2) [OF u(1,2)] by blast
  then have "l \<noteq> j" using j u(4) by auto
  with l u(3) show "\<exists>l t d. ?Q l = Some (t, d) \<and> tk_key t = (k, window_started_at v, c)" by auto
next
  note owners = owners_okD [OF ledger_okD(2) [OF L]]
  fix k t d v assume k: "?Q k = Some (t, d)" and v: "hm_get m' (tk_id_hash t) = Some v"
    "window_started_at v = tk_generation t"
  have kj: "Q k = Some (t, d)" "k \<noteq> j" using k by (simp_all split: if_splits)
  from settled_entry [OF S i v(1)] obtain u where u: "hm_get m (tk_id_hash t) = Some u"
      "window_started_at v = window_started_at u"
      "tk_id_hash t \<noteq> tk_id_hash tk \<or> tk_candidate t \<noteq> tk_candidate tk \<Longrightarrow>
        hm_get (candidates v) (tk_candidate t) = hm_get (candidates u) (tk_candidate t)"
    by metis
  have pending: "hm_get (candidates u) (tk_candidate t) = Some Pending"
    using owners(3) [OF kj(1) u(1)] u(2) v(2) by simp
  have "tk_id_hash t \<noteq> tk_id_hash tk \<or> tk_candidate t \<noteq> tk_candidate tk"
    using owners(4) [OF kj(1) j] kj(2) u(1,2) v(2) i g by force
  then show "hm_get (candidates v) (tk_candidate t) = Some Pending" using u(3) pending by simp
qed (fact drop_owner_ok [OF ledger_okD(2) [OF L]])+

lemma settled_times:
  assumes L: "ledger_ok cd sk a b w m Q H" and i: "hm_get m (tk_id_hash tk) = Some info"
    and S: "settled m tk info m'"
    and live: "\<And>t. held (Q(j := None)) H t \<Longrightarrow> live m (tk_id_hash t) (tk_generation t) \<Longrightarrow>
      live m' (tk_id_hash t) (tk_generation t)"
  shows "times_ok cd sk w m' (Q(j := None)) H" (is "times_ok cd sk w m' ?Q H")
proof (rule times_okI)
  note times = times_okD [OF ledger_okD(4) [OF L]]
  fix k v assume k: "hm_get m' k = Some v"
  show "window_started_at v \<le> w \<and> window_started_at v \<le> last_candidate_at v + sk"
    by (rule settled_entry [OF S i k]) (use times(1,2) in simp)
next
  note times = times_okD [OF ledger_okD(4) [OF L]]
  fix t v assume h: "held ?Q H t" and v: "hm_get m' (tk_id_hash t) = Some v" "window_started_at v = tk_generation t"
  show "tk_requested_at t \<le> last_candidate_at v + sk"
    by (rule settled_entry [OF S i v(1)]) (use times(3) [OF held_drop [OF h]] v(2) in simp)
next
  note times = times_okD [OF ledger_okD(4) [OF L]]
  show "held ?Q H t \<Longrightarrow> tk_requested_at t \<le> w" for t using times(4) held_drop by blast
  show "held ?Q H t \<Longrightarrow> \<not> live m' (tk_id_hash t) (tk_generation t) \<Longrightarrow>
      tk_requested_at t + cd < w + sk \<and> tk_generation t + cd < w + sk" for t
    using times(5) [OF held_drop] live by blast
qed

lemma settled_windows:
  assumes "ledger_ok cd sk a b w m Q H"
  shows "windows_ok cd sk (unat a) (Q(j := None)) H"
  using windows_ok_mono [OF ledger_okD(5) [OF assms] owners_okD(1) [OF ledger_okD(2) [OF assms]]
      answers_okD(1) [OF ledger_okD(3) [OF assms]]] held_drop by blast

lemma ledger_commit_live:
  assumes L: "ledger_ok cd sk a b w m Q H" and j: "Q j = Some (tk, True)"
    and i: "hm_get m (tk_id_hash tk) = Some info" and g: "window_started_at info = tk_generation tk"
    and info': "window_started_at info' = window_started_at info"
      "last_candidate_at info' = last_candidate_at info"
      "candidates info' = hm_insert (tk_candidate tk) Committed (candidates info)"
    and wf: "map_wf a b (hm_insert (tk_id_hash tk) info' m)"
  shows "ledger_ok cd sk a b w (hm_insert (tk_id_hash tk) info' m) (Q(j := None)) H"
proof -
  let ?Q = "Q(j := None)" and ?m = "hm_insert (tk_id_hash tk) info' m"
  note owners = owners_okD [OF ledger_okD(2) [OF L]] and answers = answers_okD [OF ledger_okD(3) [OF L]]
  have S: "settled m tk info ?m" using info' by (auto simp: settled_def hm_simps)
  have live: "live ?m k h = live m k h" for k h
    using i info' by (auto simp: live_def hm_simps)
  have "answers_ok ?m ?Q H"
  proof (rule answers_okI)
    fix t r v assume t: "(t, r) \<in> H" "tk_is_new t" and v: "hm_get ?m (tk_id_hash t) = Some v"
      "window_started_at v = tk_generation t"
    then show "hm_get (candidates v) (tk_candidate t) \<noteq> None"
      using answers(4) [OF t] i g info' by (auto simp: hm_simps split: if_splits)
  next
    fix k v c assume k: "hm_get ?m k = Some v" and c: "hm_get (candidates v) c = Some Committed"
    obtain r where r: "(tk, r) \<in> H" using answers(3) [OF j] by blast
    show "\<exists>t r. (t, r) \<in> H \<and> tk_is_new t \<and> tk_key t = (k, window_started_at v, c)"
    proof (cases "k = tk_id_hash tk \<and> c = tk_candidate tk")
      case True
      then show ?thesis using k r owners(5) [OF j] g info'(1) by (force simp: hm_simps)
    next
      case False
      then show ?thesis using k c answers(5) [of k _ c] i info' by (auto simp: hm_simps split: if_splits)
    qed
  next
    show "finite H" by (fact answers(1))
  qed (use answers(2,3) in \<open>simp split: if_splits; blast\<close>)+
  then show ?thesis
    using settled_owners [OF L j i g S] settled_times [OF L i S] settled_windows [OF L] wf
    by (simp add: ledger_ok_def live)
qed

lemma ledger_commit:
  assumes L: "ledger_ok cd sk a b w m Q H" and j: "Q j = Some (tk, True)"
  shows "ledger_ok cd sk a b w (finalize (tk_id_hash tk) (tk_candidate tk) (tk_generation tk) (Inr r) m)
    (Q(j := None)) H"
proof (cases "live m (tk_id_hash tk) (tk_generation tk)")
  case False
  then show ?thesis using ledger_drop_stale [OF L j] by (simp add: finalize_stale)
next
  case True
  then obtain info where info: "hm_get m (tk_id_hash tk) = Some info"
      "window_started_at info = tk_generation tk"
    by (auto simp: live_def)
  have pend: "hm_get (candidates info) (tk_candidate tk) = Some Pending"
    using owners_okD(3) [OF ledger_okD(2) [OF L] j info] .
  have wf: "map_wf a b (finalize (tk_id_hash tk) (tk_candidate tk) (tk_generation tk) (Inr r) m)"
    using ledger_okD(1) [OF L] by (rule finalize_wf)
  show ?thesis
    using wf info pend
    by (cases r) (auto simp: finalize_def intro!: ledger_commit_live [OF L j info])
qed

text \<open>No held ticket but \<open>tk\<close> itself is about its candidate in its window.\<close>

lemma refunded_other:
  assumes L: "ledger_ok cd sk a b w m Q H" and j: "Q j = Some (tk, False)" and t: "held (Q(j := None)) H t"
  shows "tk_key t \<noteq> tk_key tk"
proof
  assume key: "tk_key t = tk_key tk"
  from t consider k d where "(Q(j := None)) k = Some (t, d)" | r where "tk_is_new t" "(t, r) \<in> H"
    unfolding held_def by blast
  then show False
  proof cases
    case (1 k d)
    then have "Q k = Some (t, d)" "k \<noteq> j" by (simp_all split: if_splits)
    then show False using owners_okD(4) [OF ledger_okD(2) [OF L] _ j key] by blast
  next
    case 2
    then show False using answers_okD(2) [OF ledger_okD(3) [OF L] j 2(2,1)] key by blast
  qed
qed

lemma ledger_refund_live:
  assumes L: "ledger_ok cd sk a b w m Q H" and j: "Q j = Some (tk, False)"
    and i: "hm_get m (tk_id_hash tk) = Some info" and g: "window_started_at info = tk_generation tk"
    and wf: "map_wf a b m'"
    and m': "\<And>k. hm_get m' k = (if k = tk_id_hash tk
        then (if hm_len (hm_remove (tk_candidate tk) (candidates info)) = 0 then None
              else Some (info\<lparr>candidates := hm_remove (tk_candidate tk) (candidates info)\<rparr>))
        else hm_get m k)"
  shows "ledger_ok cd sk a b w m' (Q(j := None)) H"
proof -
  let ?Q = "Q(j := None)" and ?c = "tk_candidate tk"
  note answers = answers_okD [OF ledger_okD(3) [OF L]]
  have S: "settled m tk info m'" by (auto simp: settled_def m' hm_simps split: if_splits)
  have kept: "hm_get (hm_remove ?c (candidates info)) (tk_candidate t) \<noteq> None"
    if "held ?Q H t" "tk_id_hash t = tk_id_hash tk" "tk_generation t = tk_generation tk" for t
    using that refunded_other [OF L j that(1)] held_drop [OF that(1)] i g
      held_in_entry [OF ledger_okD(2,3) [OF L], of t info] by (simp add: hm_simps)
  have live: "live m' (tk_id_hash t) (tk_generation t)"
    if "held ?Q H t" "live m (tk_id_hash t) (tk_generation t)" for t
    using that kept [OF that(1)] i g by (auto simp: live_def m' hm_len_0_iff)
  have "answers_ok m' ?Q H"
  proof (rule answers_okI)
    fix t r v assume t: "(t, r) \<in> H" "tk_is_new t" and v: "hm_get m' (tk_id_hash t) = Some v"
      "window_started_at v = tk_generation t"
    have "held ?Q H t" using t by (auto simp: held_def)
    then show "hm_get (candidates v) (tk_candidate t) \<noteq> None"
      using answers(4) [OF t] kept v i g by (auto simp: m' hm_simps split: if_splits)
  next
    fix k v c assume k: "hm_get m' k = Some v" and c: "hm_get (candidates v) c = Some Committed"
    then show "\<exists>t r. (t, r) \<in> H \<and> tk_is_new t \<and> tk_key t = (k, window_started_at v, c)"
      using answers(5) [of k _ c] i by (auto simp: m' hm_simps split: if_splits)
  next
    show "finite H" by (fact answers(1))
  qed (use answers(2,3) in \<open>simp split: if_splits; blast\<close>)+
  then show ?thesis
    using settled_owners [OF L j i g S] settled_times [OF L i S live] settled_windows [OF L] wf
    by (simp add: ledger_ok_def)
qed

lemma ledger_refund:
  assumes L: "ledger_ok cd sk a b w m Q H" and j: "Q j = Some (tk, False)"
  shows "ledger_ok cd sk a b w (remove_pending (tk_id_hash tk) (tk_candidate tk) (tk_generation tk) m)
    (Q(j := None)) H"
proof (cases "live m (tk_id_hash tk) (tk_generation tk)")
  case False
  then show ?thesis using ledger_drop_stale [OF L j] by (simp add: remove_pending_stale)
next
  case True
  then obtain info where info: "hm_get m (tk_id_hash tk) = Some info"
      "window_started_at info = tk_generation tk"
    by (auto simp: live_def)
  have pend: "hm_get (candidates info) (tk_candidate tk) = Some Pending"
    using owners_okD(3) [OF ledger_okD(2) [OF L] j info] .
  show ?thesis
    using ledger_okD(1) [OF L] remove_pending_live [OF info pend]
    by (intro ledger_refund_live [OF L j info] remove_pending_wf) (simp_all add: hm_simps)
qed

section \<open>New reservations\<close>

text \<open>
  What a new reservation looks like: the ticket's candidate is added as \<open>Pending\<close> to the entry of its
  window, or to a new entry whose window the ticket opens, shortly after the ticket's timestamp.
\<close>

definition reserves ::
  "TimeDelta \<Rightarrow> TimeDelta \<Rightarrow> DateTime \<Rightarrow> RateLimitMap \<Rightarrow> Ticket \<Rightarrow> RateLimitInfo \<Rightarrow> bool" where
  "reserves cd sk w m tk info' \<longleftrightarrow>
     0 \<le> sk \<and> 2 * sk \<le> cd \<and> tk_requested_at tk \<le> w \<and> w \<le> tk_requested_at tk + sk \<and> tk_is_new tk \<and>
     (case hm_get m (tk_id_hash tk) of
        Some info \<Rightarrow> hm_get (candidates info) (tk_candidate tk) = None \<and>
          window_started_at info = tk_generation tk \<and>
          candidates info' = hm_insert (tk_candidate tk) Pending (candidates info)
      | None \<Rightarrow> tk_generation tk = tk_requested_at tk \<and>
          candidates info' = hm_insert (tk_candidate tk) Pending fmempty) \<and>
     window_started_at info' = tk_generation tk \<and> last_candidate_at info' = tk_requested_at tk"

lemma reservesD:
  assumes "reserves cd sk w m tk info'"
  shows "0 \<le> sk" "2 * sk \<le> cd" "tk_requested_at tk \<le> w" "w \<le> tk_requested_at tk + sk" "tk_is_new tk"
    and "window_started_at info' = tk_generation tk" "last_candidate_at info' = tk_requested_at tk"
    and "hm_get m (tk_id_hash tk) = Some info \<Longrightarrow> hm_get (candidates info) (tk_candidate tk) = None \<and>
      window_started_at info = tk_generation tk \<and>
      candidates info' = hm_insert (tk_candidate tk) Pending (candidates info)"
    and "hm_get m (tk_id_hash tk) = None \<Longrightarrow> tk_generation tk = tk_requested_at tk \<and>
      candidates info' = hm_insert (tk_candidate tk) Pending fmempty"
    and "hm_get (candidates info') (tk_candidate tk) = Some Pending"
  using assms by (auto simp: reserves_def hm_simps split: option.splits)

abbreviation reserved_map :: "RateLimitMap \<Rightarrow> Ticket \<Rightarrow> RateLimitInfo \<Rightarrow> RateLimitMap" where
  "reserved_map m tk info' \<equiv> hm_insert (tk_id_hash tk) info' m"

lemma reserved_get:
  "hm_get (reserved_map m tk info') k = Some v \<Longrightarrow>
     k \<noteq> tk_id_hash tk \<and> hm_get m k = Some v \<or> k = tk_id_hash tk \<and> v = info'"
  by (auto simp: hm_simps split: if_splits)

lemma reserved_held: "Q j = None \<Longrightarrow> tk_is_new tk \<Longrightarrow> held (Q(j \<mapsto> (tk, False))) H t \<longleftrightarrow> t = tk \<or> held Q H t"
  unfolding held_def by (auto split: if_splits) (metis option.distinct(1))+

lemma reserved_live:
  "reserves cd sk w m tk info' \<Longrightarrow> live (reserved_map m tk info') k h \<longleftrightarrow>
     live m k h \<or> k = tk_id_hash tk \<and> h = tk_generation tk"
  by (auto simp: reserves_def live_def hm_simps split: option.splits)

text \<open>A held ticket of the same window finds that window live, with another candidate than the new one.\<close>

lemma reserved_entry:
  assumes L: "ledger_ok cd sk a b w m Q H" and R: "reserves cd sk w m tk info'"
    and t: "held Q H t" "tk_id_hash t = tk_id_hash tk" "tk_generation t = tk_generation tk"
  obtains info where "hm_get m (tk_id_hash tk) = Some info" "window_started_at info = tk_generation tk"
    "tk_candidate t \<noteq> tk_candidate tk"
    "hm_get (candidates info') (tk_candidate t) = hm_get (candidates info) (tk_candidate t)"
proof (cases "hm_get m (tk_id_hash tk)")
  case None
  then have "\<not> live m (tk_id_hash t) (tk_generation t)" using t by (simp add: live_def)
  then have "tk_generation tk + cd < w + sk" using times_okD(5) [OF ledger_okD(4) [OF L] t(1)] t(3) by simp
  then show ?thesis using reservesD(1-4) [OF R] reservesD(9) [OF R None] by simp
next
  case (Some info)
  note old = reservesD(8) [OF R Some]
  have "hm_get (candidates info) (tk_candidate t) \<noteq> None"
    using held_in_entry [OF ledger_okD(2,3) [OF L] t(1)] t Some old by simp
  then have "tk_candidate t \<noteq> tk_candidate tk" using old by force
  then show ?thesis using old Some by (intro that [OF Some]) (auto simp: hm_simps)
qed

lemma reserved_fresh:
  assumes "ledger_ok cd sk a b w m Q H" "reserves cd sk w m tk info'" "held Q H t"
  shows "tk_key t \<noteq> tk_key tk"
  using reserved_entry [OF assms] by auto

lemma reserved_owners:
  assumes L: "ledger_ok cd sk a b w m Q H" and R: "reserves cd sk w m tk info'" and j: "Q j = None"
  shows "owners_ok (reserved_map m tk info') (Q(j \<mapsto> (tk, False)))" (is "owners_ok ?m ?Q")
proof (rule owners_okI)
  note owners = owners_okD [OF ledger_okD(2) [OF L]]
  show "finite (dom ?Q)" using owners(1) by simp
  fix k v c assume k: "hm_get ?m k = Some v" and c: "hm_get (candidates v) c = Some Pending"
  show "\<exists>l t d. ?Q l = Some (t, d) \<and> tk_key t = (k, window_started_at v, c)"
  proof (cases "k = tk_id_hash tk \<and> c = tk_candidate tk")
    case True
    then show ?thesis using reserved_get [OF k] reservesD(6) [OF R] by auto
  next
    case False
    have "\<exists>u. hm_get m k = Some u \<and> hm_get (candidates u) c = Some Pending \<and>
        window_started_at u = window_started_at v"
      using reserved_get [OF k] c False R by (auto simp: reserves_def hm_simps split: option.splits if_splits)
    then obtain l t d where l: "Q l = Some (t, d)" "tk_key t = (k, window_started_at v, c)"
      using owners(2) by metis
    then have "?Q l = Some (t, d)" using j by auto
    with l(2) show ?thesis by blast
  qed
next
  fix k t d v assume k: "?Q k = Some (t, d)" and v: "hm_get ?m (tk_id_hash t) = Some v"
    "window_started_at v = tk_generation t"
  note owners = owners_okD [OF ledger_okD(2) [OF L]]
  show "hm_get (candidates v) (tk_candidate t) = Some Pending"
  proof (cases "k = j")
    case True
    then show ?thesis using k v reservesD(10) [OF R] by (auto simp: hm_simps)
  next
    case False
    then have Qk: "Q k = Some (t, d)" using k by simp
    then have h: "held Q H t" by (auto simp: held_def)
    show ?thesis
    proof (cases "tk_id_hash t = tk_id_hash tk")
      case True
      then have "v = info'" and "tk_generation t = tk_generation tk"
        using reserved_get [OF v(1)] v(2) reservesD(6) [OF R] by auto
      with True show ?thesis
        using owners(3) [OF Qk] by (auto elim!: reserved_entry [OF L R h])
    next
      case False
      then show ?thesis using reserved_get [OF v(1)] owners(3) [OF Qk] v(2) by blast
    qed
  qed
next
  note owners = owners_okD [OF ledger_okD(2) [OF L]]
  have "Q l = Some (u, e) \<Longrightarrow> tk_key u \<noteq> tk_key tk" for l u e
    using reserved_fresh [OF L R, of u] by (auto simp: held_def)
  then show "k = k'" if "?Q k = Some (t, d)" "?Q k' = Some (t', d')" "tk_key t = tk_key t'" for k t d k' t' d'
    using that owners(4) [of k t d k' t' d'] by (fastforce split: if_splits)
  show "?Q k = Some (t, d) \<Longrightarrow> tk_is_new t" for k t d
    using reservesD(5) [OF R] owners(5) by (auto split: if_splits)
qed

lemma reserved_answers:
  assumes L: "ledger_ok cd sk a b w m Q H" and R: "reserves cd sk w m tk info'" and j: "Q j = None"
  shows "answers_ok (reserved_map m tk info') (Q(j \<mapsto> (tk, False))) H" (is "answers_ok ?m ?Q H")
proof (rule answers_okI)
  note answers = answers_okD [OF ledger_okD(3) [OF L]]
  show "finite H" by (fact answers(1))
  show "?Q k = Some (t, True) \<Longrightarrow> \<exists>r. (t, r) \<in> H" for k t
    using answers(3) by (auto split: if_splits)
  fix k t t' r' assume *: "?Q k = Some (t, False)" "(t', r') \<in> H" "tk_is_new t'"
  then have "held Q H t'" by (auto simp: held_def)
  with * show "tk_key t' \<noteq> tk_key t"
    using reserved_fresh [OF L R, of t'] answers(2) [of k t t' r'] by (auto split: if_splits)
next
  note answers = answers_okD [OF ledger_okD(3) [OF L]]
  fix t r' v assume t: "(t, r') \<in> H" "tk_is_new t" and v: "hm_get ?m (tk_id_hash t) = Some v"
    "window_started_at v = tk_generation t"
  have h: "held Q H t" using t by (auto simp: held_def)
  show "hm_get (candidates v) (tk_candidate t) \<noteq> None"
  proof (cases "tk_id_hash t = tk_id_hash tk")
    case True
    then have "v = info'" and "tk_generation t = tk_generation tk"
      using reserved_get [OF v(1)] v(2) reservesD(6) [OF R] by auto
    with True show ?thesis
      using answers(4) [OF t] by (auto elim!: reserved_entry [OF L R h])
  next
    case False
    then show ?thesis using reserved_get [OF v(1)] answers(4) [OF t] v(2) by blast
  qed
next
  note answers = answers_okD [OF ledger_okD(3) [OF L]]
  fix k v c assume k: "hm_get ?m k = Some v" and c: "hm_get (candidates v) c = Some Committed"
  from reserved_get [OF k] show "\<exists>t r. (t, r) \<in> H \<and> tk_is_new t \<and> tk_key t = (k, window_started_at v, c)"
    using c answers(5) [of k _ c] R by (auto simp: reserves_def hm_simps split: option.splits if_splits)
qed

lemma reserved_times:
  assumes L: "ledger_ok cd sk a b w m Q H" and R: "reserves cd sk w m tk info'" and j: "Q j = None"
  shows "times_ok cd sk w (reserved_map m tk info') (Q(j \<mapsto> (tk, False))) H" (is "times_ok cd sk w ?m ?Q H")
proof (rule times_okI)
  note times = times_okD [OF ledger_okD(4) [OF L]]
  have g: "tk_generation tk \<le> w"
    using times(1) reservesD(3,8,9) [OF R] by (cases "hm_get m (tk_id_hash tk)") force+
  show "window_started_at v \<le> w \<and> window_started_at v \<le> last_candidate_at v + sk"
    if "hm_get ?m k = Some v" for k v
    using reserved_get [OF that] times(1,2) [of k v] g reservesD(1-4,6,7) [OF R] by fastforce
next
  note times = times_okD [OF ledger_okD(4) [OF L]] and held = reserved_held [where Q = Q and j = j, OF j reservesD(5) [OF R]]
  show "tk_requested_at t \<le> w" if "held ?Q H t" for t
    using that times(4) [of t] reservesD(3) [OF R] by (auto simp: held)
  then have le: "held ?Q H t \<Longrightarrow> tk_requested_at t \<le> w" for t .
  show "tk_requested_at t \<le> last_candidate_at v + sk"
    if t: "held ?Q H t" and v: "hm_get ?m (tk_id_hash t) = Some v" "window_started_at v = tk_generation t" for t v
  proof (cases "tk_id_hash t = tk_id_hash tk")
    case True
    then show ?thesis using reserved_get [OF v(1)] reservesD(4,7) [OF R] le [OF t] by auto
  next
    case False
    then have "held Q H t" and "hm_get m (tk_id_hash t) = Some v"
      using t reserved_get [OF v(1)] by (auto simp: held)
    then show ?thesis using times(3) v(2) by blast
  qed
  show "tk_requested_at t + cd < w + sk \<and> tk_generation t + cd < w + sk"
    if "held ?Q H t" "\<not> live ?m (tk_id_hash t) (tk_generation t)" for t
    using that times(5) [of t] by (auto simp: held reserved_live [OF R])
qed

lemma reserved_windows:
  assumes L: "ledger_ok cd sk a b w m Q H" and R: "reserves cd sk w m tk info'" and j: "Q j = None"
    and wf: "map_wf a b (reserved_map m tk info')"
  shows "windows_ok cd sk (unat a) (Q(j \<mapsto> (tk, False))) H" (is "windows_ok cd sk (unat a) ?Q H")
proof (rule windows_okI)
  note held = reserved_held [where Q = Q and j = j, OF j reservesD(5) [OF R]]
  have apart: "tk_requested_at t + cd < tk_requested_at tk + 2 * sk"
    if "held Q H t" "tk_id_hash t = tk_id_hash tk" "tk_generation t \<noteq> tk_generation tk" for t
  proof -
    have "\<not> live m (tk_id_hash t) (tk_generation t)"
      using that reservesD(8) [OF R] by (auto simp: live_def)
    then show ?thesis using times_okD(5) [OF ledger_okD(4) [OF L] that(1)] reservesD(4) [OF R] by simp
  qed
  show "tk_requested_at t + cd < tk_requested_at t' + 2 * sk \<or>
      tk_requested_at t' + cd < tk_requested_at t + 2 * sk"
    if "held ?Q H t" "held ?Q H t'" "tk_id_hash t = tk_id_hash t'" "tk_generation t \<noteq> tk_generation t'" for t t'
    using that apart [of t] apart [of t'] windows_okD(1) [OF ledger_okD(5) [OF L], of t t']
    unfolding held by auto
  fix i g
  show "card (window_candidates ?Q H i g) \<le> unat a"
  proof (cases "i = tk_id_hash tk \<and> g = tk_generation tk")
    case False
    then have "window_candidates ?Q H i g = window_candidates Q H i g"
      by (auto simp: window_candidates_def held)
    then show ?thesis using windows_okD(2) [OF ledger_okD(5) [OF L]] by simp
  next
    case True
    have "tk_candidate t \<in> hm_keys (candidates info')"
      if t: "held Q H t" "tk_id_hash t = tk_id_hash tk" "tk_generation t = tk_generation tk" for t
    proof -
      obtain info where "hm_get m (tk_id_hash tk) = Some info" "window_started_at info = tk_generation tk"
          "hm_get (candidates info') (tk_candidate t) = hm_get (candidates info) (tk_candidate t)"
        by (rule reserved_entry [OF L R t])
      then show ?thesis
        using held_in_entry [OF ledger_okD(2,3) [OF L] t(1)] t(2,3) by (simp add: hm_keys_get)
    qed
    then have "window_candidates ?Q H i g \<subseteq> hm_keys (candidates info')"
      using True reservesD(10) [OF R] by (auto simp: window_candidates_def held hm_keys_get)
    then have "card (window_candidates ?Q H i g) \<le> hm_len (candidates info')"
      by (simp add: hm_len_keys card_mono)
    also have "\<dots> \<le> unat a"
      using map_wf_get [OF wf, of "tk_id_hash tk" info'] by (simp add: hm_simps info_wf_def budget_ok_def)
    finally show ?thesis .
  qed
qed

lemma ledger_reserve:
  assumes "ledger_ok cd sk a b w m Q H" "reserves cd sk w m tk info'" "Q j = None"
    and "map_wf a b (reserved_map m tk info')"
  shows "ledger_ok cd sk a b w (reserved_map m tk info') (Q(j \<mapsto> (tk, False))) H"
  using assms reserved_owners [OF assms(1-3)] reserved_answers [OF assms(1-3)] reserved_times [OF assms(1-3)]
    reserved_windows [OF assms]
  by (simp add: ledger_ok_def)

end
