(* ===== verification/System_Safety.thy ===== *)
theory System_Safety
  imports System Ledger_Steps
begin

text \<open>
  The invariant of the server and its preservation by every event of \<open>System\<close>. The invariant is
  the ledger of \<open>Ledger\<close>, read off the requests in flight, with the bookkeeping of the database
  permits, of the timestamps and of the replays. The locale \<open>guarded_machine\<close> is interpreted on
  the server here, so that its facts hold of every reachable state.
\<close>

section \<open>The view of a system\<close>

text \<open>The new ticket a request owns, and whether the database has answered it.\<close>

fun own_of :: "phase \<Rightarrow> (Ticket \<times> bool) option" where
  "own_of (Permit_Wait tk) = (if tk_is_new tk then Some (tk, False) else None)"
| "own_of (Permit_Timeout tk) = (if tk_is_new tk then Some (tk, False) else None)"
| "own_of (Deferred_Removal tk) = (if tk_is_new tk then Some (tk, False) else None)"
| "own_of (Querying tk _) = (if tk_is_new tk then Some (tk, False) else None)"
| "own_of (Finalizing tk r _) =
     (if tk_is_new tk then Some (tk, case r of Inl _ \<Rightarrow> False | Inr _ \<Rightarrow> True) else None)"
| "own_of _ = None"

definition system_owners :: "'db System \<Rightarrow> owners" where
  "system_owners s j = (case hm_get (jobs s) j of None \<Rightarrow> None | Some p \<Rightarrow> own_of p)"

fun uses_permit :: "phase \<Rightarrow> bool" where
  "uses_permit (Querying _ _) = True"
| "uses_permit (Store_Writing _ _) = True"
| "uses_permit _ = False"

definition permit_holders :: "'db System \<Rightarrow> nat set" where
  "permit_holders s = {j \<in> hm_keys (jobs s). \<exists>p. hm_get (jobs s) j = Some p \<and> uses_permit p}"

text \<open>A replay rests on an answer to a new ticket for the same candidate and window.\<close>

definition backed :: "answers \<Rightarrow> Ticket \<Rightarrow> bool" where
  "backed H tk \<longleftrightarrow> tk_is_new tk \<or> (\<exists>tk' r. (tk', r) \<in> H \<and> tk_is_new tk' \<and> tk_key tk' = tk_key tk)"

definition answers_backed :: "answers \<Rightarrow> bool" where
  "answers_backed H \<longleftrightarrow> (\<forall>tk r. (tk, r) \<in> H \<longrightarrow> backed H tk)"

text \<open>An overload answer tells the client when to come back.\<close>

definition polite :: "Response \<Rightarrow> bool" where
  "polite r \<longleftrightarrow> (status r = TOO_MANY_REQUESTS \<or> status r = SERVICE_UNAVAILABLE \<longrightarrow> has_retry_after r)"

fun phase_ok :: "externals \<Rightarrow> DateTime \<Rightarrow> answers \<Rightarrow> phase \<Rightarrow> bool" where
  "phase_ok X w H (Stamped _ _ r _) = (r \<le> w)"
| "phase_ok X w H (Permit_Wait tk) = backed H tk"
| "phase_ok X w H (Querying tk _) = backed H tk"
| "phase_ok X w H (Permit_Timeout tk) = tk_is_new tk"
| "phase_ok X w H (Deferred_Removal tk) = tk_is_new tk"
| "phase_ok X w H (Responded r) = polite r"
| "phase_ok X w H Panicked = (\<not> externals_ok X)"
| "phase_ok X w H _ = True"

definition same_limits :: "AppState \<Rightarrow> AppState \<Rightarrow> bool" where
  "same_limits st st' \<longleftrightarrow>
     rate_limit_cooldown st' = rate_limit_cooldown st \<and>
     rate_limit_max_attempts st' = rate_limit_max_attempts st \<and>
     rate_limit_max_identifiers st' = rate_limit_max_identifiers st"

text \<open>The invariant of a server started from the memory \<open>st\<close>.\<close>

definition sys_inv :: "externals \<Rightarrow> AppState \<Rightarrow> 'db System \<Rightarrow> bool" where
  "sys_inv X st s \<longleftrightarrow>
     limits_ok st \<and> same_limits st (app s) \<and>
     ledger_ok (rate_limit_cooldown st) REQUEST_TIMEOUT (rate_limit_max_attempts st)
       (rate_limit_max_identifiers st) (wall s) (identifier_rate_limit (app s)) (system_owners s)
       (set (answers s)) \<and>
     answers_backed (set (answers s)) \<and>
     (\<forall>j p. hm_get (jobs s) j = Some p \<longrightarrow> phase_ok X (wall s) (set (answers s)) p) \<and>
     database_semaphore (app s) + card (permit_holders s) = database_semaphore st"

lemma sys_invD:
  assumes "sys_inv X st s"
  shows "limits_ok st" and "same_limits st (app s)"
    and "ledger_ok (rate_limit_cooldown st) REQUEST_TIMEOUT (rate_limit_max_attempts st)
       (rate_limit_max_identifiers st) (wall s) (identifier_rate_limit (app s)) (system_owners s)
       (set (answers s))"
    and "answers_backed (set (answers s))"
    and "hm_get (jobs s) j = Some p \<Longrightarrow> phase_ok X (wall s) (set (answers s)) p"
    and "database_semaphore (app s) + card (permit_holders s) = database_semaphore st"
  using assms by (auto simp: sys_inv_def)

section \<open>Changing one request\<close>

lemma owners_insert: "jobs t = hm_insert j p (jobs s) \<Longrightarrow> system_owners t = (system_owners s)(j := own_of p)"
  by (auto simp: system_owners_def fun_eq_iff hm_simps)

lemma owners_job: "hm_get (jobs s) j = Some p \<Longrightarrow> system_owners s j = own_of p"
  by (simp add: system_owners_def)

lemma owners_none: "hm_get (jobs s) j = None \<Longrightarrow> system_owners s j = None"
  by (simp add: system_owners_def)

lemma same_jobs:
  "jobs t = jobs s \<Longrightarrow> system_owners t = system_owners s"
  "jobs t = jobs s \<Longrightarrow> permit_holders t = permit_holders s"
  by (simp_all add: system_owners_def permit_holders_def fun_eq_iff)

lemma finite_permit_holders [simp]: "finite (permit_holders s)"
  by (simp add: permit_holders_def)

lemma permit_holders_insert:
  "jobs t = hm_insert j p (jobs s) \<Longrightarrow>
     permit_holders t = (if uses_permit p then insert j (permit_holders s) else permit_holders s - {j})"
  by (auto simp: permit_holders_def hm_simps split: if_splits)

lemma holds_permit_iff: "hm_get (jobs s) j = Some p \<Longrightarrow> j \<in> permit_holders s \<longleftrightarrow> uses_permit p"
  by (auto simp: permit_holders_def hm_keys_get)

lemma backed_mono: "backed H tk \<Longrightarrow> H \<subseteq> H' \<Longrightarrow> backed H' tk"
  by (auto simp: backed_def)

lemma phase_ok_mono: "phase_ok X w H p \<Longrightarrow> w \<le> w' \<Longrightarrow> H \<subseteq> H' \<Longrightarrow> phase_ok X w' H' p"
  by (cases p) (auto intro: backed_mono)

lemma same_limits_simps [simp]:
  "same_limits st st"
  "same_limits st (with_map f st') = same_limits st st'"
  "same_limits st (acquire_permit st') = same_limits st st'"
  "same_limits st (release_permit st') = same_limits st st'"
  "same_limits st (release_ticket tk st') = same_limits st st'"
  "same_limits st (finalize_ticket tk r st') = same_limits st st'"
  by (simp_all add: same_limits_def acquire_permit_def release_permit_def release_ticket_def finalize_ticket_def)

lemma permit_sel [simp]:
  "identifier_rate_limit (acquire_permit st) = identifier_rate_limit st"
  "identifier_rate_limit (release_permit st) = identifier_rate_limit st"
  "database_semaphore (acquire_permit st) = database_semaphore st - 1"
  "database_semaphore (release_permit st) = database_semaphore st + 1"
  by (simp_all add: acquire_permit_def release_permit_def)

lemma ticket_sel [simp]:
  "database_semaphore (release_ticket tk st) = database_semaphore st"
  "database_semaphore (finalize_ticket tk r st) = database_semaphore st"
  by (simp_all add: release_ticket_def finalize_ticket_def)

text \<open>The permits after one request changes, from the permits before.\<close>

abbreviation permit_of :: "phase \<Rightarrow> nat" where
  "permit_of p \<equiv> (if uses_permit p then 1 else 0)"

lemma permits_change:
  assumes "jobs t = hm_insert j p' (jobs s)" "hm_get (jobs s) j = Some p"
  shows "card (permit_holders t) + permit_of p = card (permit_holders s) + permit_of p'"
proof (cases "uses_permit p")
  case True
  then have j: "j \<in> permit_holders s" using holds_permit_iff [OF assms(2)] by simp
  then have "0 < card (permit_holders s)" by (metis card_gt_0_iff empty_iff finite_permit_holders)
  with True j show ?thesis
    by (simp add: permit_holders_insert [OF assms(1)] insert_absorb)
next
  case False
  then have "j \<notin> permit_holders s" using holds_permit_iff [OF assms(2)] by simp
  with False show ?thesis by (simp add: permit_holders_insert [OF assms(1)])
qed

lemma sys_inv_job:
  assumes I: "sys_inv X st s" and old: "hm_get (jobs s) j = Some p"
    and t: "jobs t = hm_insert j p' (jobs s)" "wall t = wall s"
    and limits: "same_limits st (app t)"
    and ledger: "ledger_ok (rate_limit_cooldown st) REQUEST_TIMEOUT (rate_limit_max_attempts st)
       (rate_limit_max_identifiers st) (wall s) (identifier_rate_limit (app t))
       ((system_owners s)(j := own_of p')) (set (answers t))"
    and ok: "phase_ok X (wall s) (set (answers t)) p'"
    and grow: "set (answers s) \<subseteq> set (answers t)" and backs: "answers_backed (set (answers t))"
    and sem: "database_semaphore (app t) + permit_of p' = database_semaphore (app s) + permit_of p"
  shows "sys_inv X st t"
proof -
  have "phase_ok X (wall t) (set (answers t)) q" if "hm_get (jobs t) k = Some q" for k q
  proof (cases "k = j")
    case True
    then show ?thesis using that t ok by (simp add: hm_simps)
  next
    case False
    then have "phase_ok X (wall s) (set (answers s)) q"
      using that t sys_invD(5) [OF I] by (simp add: hm_simps)
    then show ?thesis using grow t by (auto intro: phase_ok_mono)
  qed
  moreover have "database_semaphore (app t) + card (permit_holders t) = database_semaphore st"
    using permits_change [OF t(1) old] sem sys_invD(6) [OF I] by simp
  ultimately show ?thesis
    using sys_invD(1) [OF I] limits ledger backs t by (simp add: sys_inv_def owners_insert [OF t(1)])
qed

text \<open>A request that changes neither the map nor the ticket it owns.\<close>

lemma sys_inv_phase:
  assumes I: "sys_inv X st s" and old: "hm_get (jobs s) j = Some p"
    and t: "jobs t = hm_insert j p' (jobs s)" "wall t = wall s" "answers t = answers s"
    and app: "same_limits st (app t)" "identifier_rate_limit (app t) = identifier_rate_limit (app s)"
    and own: "own_of p' = own_of p" and ok: "phase_ok X (wall s) (set (answers s)) p'"
    and sem: "database_semaphore (app t) + permit_of p' = database_semaphore (app s) + permit_of p"
  shows "sys_inv X st t"
proof (rule sys_inv_job [OF I old t(1,2) app(1) _ _ _ _ sem])
  have "(system_owners s)(j := own_of p') = system_owners s"
    by (simp add: own owners_job [OF old, symmetric])
  then show "ledger_ok (rate_limit_cooldown st) REQUEST_TIMEOUT (rate_limit_max_attempts st)
       (rate_limit_max_identifiers st) (wall s) (identifier_rate_limit (app t))
       ((system_owners s)(j := own_of p')) (set (answers t))"
    using sys_invD(3) [OF I] t(3) app(2) by simp
qed (use ok t(3) sys_invD(4) [OF I] in auto)


section \<open>Admission\<close>

lemma touch_entry_sel:
  "hm_get m i = Some info \<Longrightarrow> same_window info (touch_entry i r m)"
  "hm_get m i = None \<Longrightarrow> candidates (touch_entry i r m) = fmempty \<and>
     window_started_at (touch_entry i r m) = r"
  by (simp_all add: touch_entry_def Let_def same_window_def RateLimitInfo_new_def)

text \<open>The admission block on an entry map from which nothing has to expire any more.\<close>

lemma ledger_decide:
  assumes L: "ledger_ok cd sk a b w m Q H" and skew: "0 \<le> sk" "2 * sk \<le> cd" "0 < a"
    and r: "r \<le> w" "w \<le> r + sk" and j: "Q j = None"
    and room: "hm_get m i \<noteq> None \<or> hm_len m < unat b"
    and d: "decide cd a c r (touch_entry i r m) = (res, info')"
  shows "ledger_ok cd sk a b w (hm_insert i info' m) (Q(j := own_of (phase_after_admission i c r tr res))) H"
    and "answers_ok m Q H \<Longrightarrow> phase_ok X w H (phase_after_admission i c r tr res)"
proof -
  let ?e = "touch_entry i r m"
  have wf: "map_wf a b m" and be: "budget_ok a ?e"
    using ledger_okD(1) [OF L] touch_entry_budget by blast+
  have wf': "map_wf a b (hm_insert i info' m)"
    using map_wf_insert [OF wf _ room] decide_wf [OF be skew(3), of cd c r] d by simp
  have none: "Q(j := None) = Q" using j by auto
  have pos: "0 < unat a" using skew(3) by (simp add: word_less_nat_alt)
  have touch: "\<exists>info. hm_get m i = Some info \<and> same_window info ?e" if "candidates ?e \<noteq> fmempty"
    using that touch_entry_sel [of m i] by (cases "hm_get m i") auto
  have keep: "ledger_ok cd sk a b w (hm_insert i info' m) Q H" if "candidates ?e \<noteq> fmempty" "info' = ?e"
    using touch [OF that(1)] ledger_touch [OF L _ _ wf'] that(2) by blast
  have both: "ledger_ok cd sk a b w (hm_insert i info' m) (Q(j := own_of (phase_after_admission i c r tr res))) H
    \<and> (answers_ok m Q H \<longrightarrow> phase_ok X w H (phase_after_admission i c r tr res))"
    using be
  proof (cases rule: decide_cases [where cooldown = cd and c = c and now = r])
    case (Saturated n)
    then have "candidates ?e \<noteq> fmempty" using pos by (auto simp: hm_simps)
    then show ?thesis
      using Saturated(3) d keep
      by (auto simp: phase_after_admission_def none polite_def has_retry_after_def rate_limited_def)
  next
    case Duplicate
    then have "candidates ?e \<noteq> fmempty" by (auto simp: hm_simps)
    then show ?thesis
      using Duplicate(3) d keep
      by (auto simp: phase_after_admission_def make_ticket_def none polite_def pending_response_def)
  next
    case (Replayed s)
    then have ne: "candidates ?e \<noteq> fmempty" by (auto simp: hm_simps)
    then obtain info where info: "hm_get m i = Some info" "same_window info ?e" using touch by blast
    show ?thesis
      using Replayed d keep [OF ne] info answers_okD(5) [OF _ info(1), of Q H c]
      by (auto simp: phase_after_admission_def make_ticket_def none backed_def same_window_def)
  next
    case (Fresh s)
    define tk where "tk = \<lparr>tk_id_hash = i, tk_candidate = c, tk_generation = window_started_at ?e,
        tk_requested_at = r, tk_status = s, tk_is_new = True, tk_is_trash = tr\<rparr>"
    have p: "phase_after_admission i c r tr res = Permit_Wait tk" and i': "info' = reserve c r ?e"
      using Fresh(4) d by (simp_all add: phase_after_admission_def make_ticket_def tk_def)
    have "ledger_ok cd sk a b w (hm_insert (tk_id_hash tk) info' m) (Q(j \<mapsto> (tk, False))) H"
      using Fresh(2) touch_entry_sel [of m i] r wf' i'
      by (intro ledger_reserve [OF L _ j])
        (auto simp: reserves_def skew tk_def same_window_def split: option.splits)
    then show ?thesis using p by (simp add: tk_def backed_def)
  qed
  from both show "ledger_ok cd sk a b w (hm_insert i info' m) (Q(j := own_of (phase_after_admission i c r tr res))) H"
    by simp
  from both show "answers_ok m Q H \<Longrightarrow> phase_ok X w H (phase_after_admission i c r tr res)" by simp
qed

lemma ledger_admit:
  assumes L: "ledger_ok cd sk a b w m Q H" and skew: "0 \<le> sk" "2 * sk \<le> cd" "0 < a"
    and r: "r \<le> w" "w \<le> r + sk" and j: "Q j = None"
    and d: "admit cd a b i c r m = (res, m')"
  shows "ledger_ok cd sk a b w m' (Q(j := own_of (phase_after_admission i c r tr res))) H
    \<and> phase_ok X w H (phase_after_admission i c r tr res)"
proof -
  let ?m1 = "drop_expired cd i r m"
  have wf: "map_wf a b m" using ledger_okD(1) [OF L] .
  have none: "Q(j := None) = Q" using j by auto
  define m2 where "m2 = snd (make_room cd b i r ?m1)"
  have L2: "ledger_ok cd sk a b w m2 Q H"
    unfolding m2_def
    by (rule ledger_expire [OF L])
      (auto intro: wf_intros wf expires_trans expires_drop expires_make_room r)
  show ?thesis
  proof (cases rule: admit_cases [of cd b i r m a c])
    case (Full k)
    then show ?thesis
      using d L2 m2_def by (simp add: phase_after_admission_def none polite_def)
  next
    case (Room k)
    obtain info' where e: "decide cd a c r (touch_entry i r m2) = (res, info')" "m' = hm_insert i info' m2"
      using Room d m2_def by (auto simp: prod_eq_iff)
    have "hm_get m2 i \<noteq> None \<or> hm_len m2 < unat b"
      using make_room_room [of cd b i r ?m1] Room(1) m2_def by simp
    from ledger_decide [OF L2 skew r j this e(1)] show ?thesis
      using ledger_okD(3) [OF L2] e(2) by blast
  qed
qed


section \<open>Every event keeps the invariant\<close>

lemma limits_skew:
  assumes "limits_ok st"
  shows "0 \<le> REQUEST_TIMEOUT" "2 * REQUEST_TIMEOUT \<le> rate_limit_cooldown st" "0 < rate_limit_max_attempts st"
  using assms by (simp_all add: limits_ok_def REQUEST_TIMEOUT_def)

lemma same_limits_tokens [simp]:
  "same_limits st (snd (take_lookup_token now st')) = same_limits st st'"
  "same_limits st (snd (take_store_token now st')) = same_limits st st'"
  "same_limits st (snd (admit_state st' i c r)) = same_limits st st'"
  by (simp_all add: same_limits_def)

lemma fetch_entry_frame:
  assumes "fetch_entry_step X request now st = (r, st')"
  shows "same_limits st0 st' = same_limits st0 st" "identifier_rate_limit st' = identifier_rate_limit st"
    "database_semaphore st' = database_semaphore st"
  using assms
  by (auto simp: fetch_entry_step_def Let_def split_beta split: sum.splits option.splits prod.splits if_splits)

lemma fetch_entry_polite:
  "fetch_entry_step X request now st = (Entry_Response response, st') \<Longrightarrow> polite response"
  by (auto simp: fetch_entry_step_def fetch_validate_def polite_def Let_def split_beta
      split: sum.splits option.splits prod.splits if_splits)

lemma fetch_entry_no_panic:
  "externals_ok X \<Longrightarrow> fst (fetch_entry_step X request now st) \<noteq> Entry_Panic"
  using identifier_hash_total [of X "to_lowercase X (fs_identifier request)"]
  by (auto simp: fetch_entry_step_def fetch_validate_def externals_ok_def Let_def split_beta
      split: sum.splits option.splits prod.splits if_splits)

lemma store_entry_frame:
  assumes "store_entry_step X request now created st = (r, st')"
  shows "same_limits st0 st' = same_limits st0 st" "identifier_rate_limit st' = identifier_rate_limit st"
    "database_semaphore st' = database_semaphore st"
  using assms
  by (auto simp: store_entry_step_def Let_def split_beta split: sum.splits option.splits prod.splits if_splits)

lemma store_entry_polite:
  "store_entry_step X request now created st = (Inl response, st') \<Longrightarrow> polite response"
  by (auto simp: store_entry_step_def store_validate_def polite_def Let_def split_beta
      split: sum.splits option.splits prod.splits if_splits)

lemma answers_polite [simp]:
  "polite (fetch_answer st tk r)" "polite (store_answer x)" "polite database_busy_response"
  by (auto simp: fetch_answer_def store_answer_def polite_def database_busy_response_def
      internal_error_response_def split: sum.splits option.splits bool.splits FinalizerError.splits)

lemma set_job_sel [simp]:
  "jobs (set_job j p s) = hm_insert j p (jobs s)" "wall (set_job j p s) = wall s"
  "app (set_job j p s) = app s" "answers (set_job j p s) = answers s"
  by (simp_all add: set_job_def)

lemma inv_tick:
  assumes I: "sys_inv X st s" and t: "step_tick n s = Some t"
  shows "sys_inv X st t"
proof -
  have t': "t = s\<lparr>wall := wall s + int n, mono := System.mono s + n\<rparr>"
    using t by (simp add: step_tick_def)
  have same: "system_owners t = system_owners s" "permit_holders t = permit_holders s"
    using same_jobs [of t s] t' by simp_all
  have "phase_ok X (wall t) (set (answers t)) p" if "hm_get (jobs t) j = Some p" for j p
    using that t' sys_invD(5) [OF I, of j p] by (auto intro: phase_ok_mono)
  then show ?thesis
    using sys_invD [OF I] ledger_tick [OF sys_invD(3) [OF I], of "wall t"] same t'
    by (simp add: sys_inv_def)
qed

lemma inv_arrive:
  assumes I: "sys_inv X st s" and t: "step_arrive j p s = Some t"
    and p: "own_of p = None" "\<not> uses_permit p" "\<And>w H. phase_ok X w H p"
  shows "sys_inv X st t"
proof -
  have j: "hm_get (jobs s) j = None" and t': "t = set_job j p s"
    using t by (auto simp: step_arrive_def split: if_splits)
  have "system_owners t = system_owners s"
    using owners_insert [of t j p s] owners_none [OF j] t' p(1) by auto
  moreover have "permit_holders t = permit_holders s"
    using permit_holders_insert [of t j p s] t' p(2) j by (auto simp: permit_holders_def)
  ultimately show ?thesis
    using I t' p(3) by (auto simp: sys_inv_def hm_simps split: if_splits)
qed

lemma inv_lookup_token:
  assumes I: "sys_inv X st s" and t: "step_lookup_token X j s = Some t"
  shows "sys_inv X st t"
proof -
  from t obtain request tr r st' where j: "hm_get (jobs s) j = Some (Received request tr)"
    and r: "fetch_entry_step X request (mono s) (app s) = (r, st')"
    and t': "t = set_job j (case r of Entry_Response response \<Rightarrow> Responded response
        | Entry_Panic \<Rightarrow> Panicked
        | Entry_Admit id_hash candidate \<Rightarrow> Stamped id_hash candidate (wall s) tr) (s\<lparr>app := st'\<rparr>)"
    by (auto simp: step_lookup_token_def Let_def split: option.splits phase.splits prod.splits)
  show ?thesis
    by (rule sys_inv_phase [OF I j])
      (use r fetch_entry_frame [OF r] fetch_entry_polite [of X request "mono s" "app s" _ st']
        fetch_entry_no_panic [of X request "mono s" "app s"] sys_invD(2) [OF I]
        in \<open>auto simp: t' split: fetch_entry.splits\<close>)
qed

lemma inv_admit:
  assumes I: "sys_inv X st s" and t: "step_admit j s = Some t"
  shows "sys_inv X st t"
proof -
  from t obtain i c r tr where j: "hm_get (jobs s) j = Some (Stamped i c r tr)"
    and w: "wall s - r \<le> REQUEST_TIMEOUT"
    and t': "t = set_job j (phase_after_admission i c r tr (fst (admit_state (app s) i c r)))
        (s\<lparr>app := snd (admit_state (app s) i c r)\<rparr>)"
    by (auto simp: step_admit_def Let_def split_beta split: option.splits phase.splits if_splits)
  let ?p = "phase_after_admission i c r tr (fst (admit_state (app s) i c r))"
  have "r \<le> wall s" using sys_invD(5) [OF I j] by simp
  then have L: "ledger_ok (rate_limit_cooldown st) REQUEST_TIMEOUT (rate_limit_max_attempts st)
      (rate_limit_max_identifiers st) (wall s) (identifier_rate_limit (snd (admit_state (app s) i c r)))
      ((system_owners s)(j := own_of ?p)) (set (answers s)) \<and>
      phase_ok X (wall s) (set (answers s)) ?p"
    using w sys_invD(2) [OF I] owners_job [OF j]
    by (intro ledger_admit [OF sys_invD(3) [OF I] limits_skew [OF sys_invD(1) [OF I]]])
      (simp_all add: same_limits_def)
  have free: "\<not> uses_permit ?p"
    by (auto simp: phase_after_admission_def split: admit_result.splits option.splits)
  show ?thesis
    by (rule sys_inv_job [OF I j]) (use L free t' sys_invD(2,4) [OF I] in auto)
qed

text \<open>A release keeps the ledger whatever became of the reservation in the meantime.\<close>

lemma inv_release:
  assumes I: "sys_inv X st s" and j: "hm_get (jobs s) j = Some p" "own_of p = Some (tk, False)"
    and p': "own_of p' = None" "uses_permit p' = uses_permit p" "phase_ok X (wall s) (set (answers s)) p'"
  shows "sys_inv X st (set_job j p' (s\<lparr>app := release_ticket tk (app s)\<rparr>))"
proof (rule sys_inv_job [OF I j(1)])
  have "system_owners s j = Some (tk, False)" using owners_job [OF j(1)] j(2) by simp
  from ledger_refund [OF sys_invD(3) [OF I] this]
  show "ledger_ok (rate_limit_cooldown st) REQUEST_TIMEOUT (rate_limit_max_attempts st)
      (rate_limit_max_identifiers st) (wall s)
      (identifier_rate_limit (app (set_job j p' (s\<lparr>app := release_ticket tk (app s)\<rparr>))))
      ((system_owners s)(j := own_of p')) (set (answers (set_job j p' (s\<lparr>app := release_ticket tk (app s)\<rparr>))))"
    using p'(1) by (simp add: release_ticket_def)
qed (use p' sys_invD [OF I] in auto)

text \<open>A change of phase alone.\<close>

lemma inv_set_job:
  assumes I: "sys_inv X st s" and j: "hm_get (jobs s) j = Some p"
    and p': "own_of p' = own_of p" "uses_permit p' = uses_permit p" "phase_ok X (wall s) (set (answers s)) p'"
  shows "sys_inv X st (set_job j p' s)"
  by (rule sys_inv_phase [OF I j, where p' = p']) (use p' sys_invD(2) [OF I] in auto)

lemma inv_permit:
  assumes I: "sys_inv X st s" and t: "step_permit j s = Some t"
  shows "sys_inv X st t"
proof -
  from t obtain tk where j: "hm_get (jobs s) j = Some (Permit_Wait tk)"
    and n: "0 < database_semaphore (app s)"
    and t': "t = set_job j (Querying tk True) (s\<lparr>app := acquire_permit (app s)\<rparr>)"
    by (auto simp: step_permit_def split: option.splits phase.splits if_splits)
  show ?thesis
    by (rule sys_inv_phase [OF I j]) (use n t' sys_invD(2) [OF I] sys_invD(5) [OF I j] in auto)
qed

lemma inv_permit_timed_out:
  assumes I: "sys_inv X st s" and t: "step_permit_timed_out j s = Some t"
  shows "sys_inv X st t"
proof -
  from t obtain tk where j: "hm_get (jobs s) j = Some (Permit_Wait tk)"
    and t': "t = set_job j (if tk_is_new tk then Permit_Timeout tk else Responded database_busy_response) s"
    by (auto simp: step_permit_timed_out_def split: option.splits phase.splits)
  show ?thesis unfolding t' by (rule inv_set_job [OF I j]) auto
qed

lemma inv_timeout_cleanup:
  assumes I: "sys_inv X st s" and t: "step_timeout_cleanup j s = Some t"
  shows "sys_inv X st t"
proof -
  from t obtain tk where j: "hm_get (jobs s) j = Some (Permit_Timeout tk)"
    and t': "t = set_job j (Responded database_busy_response) (s\<lparr>app := release_ticket tk (app s)\<rparr>)"
    by (auto simp: step_timeout_cleanup_def split: option.splits phase.splits)
  show ?thesis unfolding t' by (rule inv_release [OF I j]) (use sys_invD(5) [OF I j] in auto)
qed

lemma inv_run_deferred:
  assumes I: "sys_inv X st s" and t: "step_run_deferred j s = Some t"
  shows "sys_inv X st t"
proof -
  from t obtain tk where j: "hm_get (jobs s) j = Some (Deferred_Removal tk)"
    and t': "t = set_job j Gone (s\<lparr>app := release_ticket tk (app s)\<rparr>)"
    by (auto simp: step_run_deferred_def split: option.splits phase.splits)
  show ?thesis unfolding t' by (rule inv_release [OF I j]) (use sys_invD(5) [OF I j] in auto)
qed

lemma inv_drop_guard:
  assumes I: "sys_inv X st s" and j: "hm_get (jobs s) j = Some p"
    and p: "p = Permit_Wait tk \<or> p = Permit_Timeout tk"
  shows "sys_inv X st (drop_guard j tk contended s)"
  using p inv_set_job [OF I j] inv_release [OF I j, of tk Gone]
  by (auto simp: drop_guard_def)

lemma inv_cancel:
  assumes I: "sys_inv X st s" and t: "step_cancel j contended s = Some t"
  shows "sys_inv X st t"
proof -
  from t obtain p where j: "hm_get (jobs s) j = Some p"
    by (auto simp: step_cancel_def split: option.splits)
  show ?thesis
    using t j inv_set_job [OF I j] inv_drop_guard [OF I j] sys_invD(5) [OF I j]
    by (auto simp: step_cancel_def split: phase.splits bool.splits)
qed

text \<open>The database answers: a new ticket's owner becomes answered, a replay changes no owner.\<close>

lemma inv_query:
  assumes I: "sys_inv X st s" and t: "step_query E j s = Some t"
  shows "sys_inv X st t"
proof -
  from t obtain tk attached where j: "hm_get (jobs s) j = Some (Querying tk attached)"
    by (auto simp: step_query_def split: option.splits phase.splits)
  define r where "r = fst (blocking_lookup E (tk_is_trash tk) (tk_candidate tk) (db s))"
  have jt: "jobs t = hm_insert j (Finalizing tk r attached) (jobs s)" and wt: "wall t = wall s"
    and at: "app t = release_permit (app s)" and ht: "answers t = record_answer tk r (answers s)"
    using t j by (auto simp: step_query_def Let_def split_beta r_def)
  have own: "system_owners s j = (if tk_is_new tk then Some (tk, False) else None)"
    using owners_job [OF j] by simp
  have backs: "backed (set (answers s)) tk" using sys_invD(5) [OF I j] by simp
  note L = sys_invD(3) [OF I]
  have "ledger_ok (rate_limit_cooldown st) REQUEST_TIMEOUT (rate_limit_max_attempts st)
      (rate_limit_max_identifiers st) (wall s) (identifier_rate_limit (app s))
      ((system_owners s)(j := own_of (Finalizing tk r attached))) (set (answers t))"
  proof (cases "tk_is_new tk")
    case True
    then have "(system_owners s)(j := own_of (Finalizing tk r attached)) =
        (case r of Inl _ \<Rightarrow> system_owners s | Inr _ \<Rightarrow> (system_owners s)(j \<mapsto> (tk, True)))"
      using own by (auto split: sum.splits)
    then show ?thesis
      using True own L ledger_answer [OF L, of j tk] ht by (auto simp: record_answer_def split: sum.splits)
  next
    case False
    then have "(system_owners s)(j := own_of (Finalizing tk r attached)) = system_owners s"
      using own by auto
    then show ?thesis
      using False L ledger_answer_replay [OF L False] ht by (auto simp: record_answer_def split: sum.splits)
  qed
  moreover have "answers_backed (set (answers t))"
    using sys_invD(4) [OF I] backs
    by (auto simp: ht record_answer_def answers_backed_def intro: backed_mono split: sum.splits)
  ultimately show ?thesis
    using sys_invD(2) [OF I]
    by (intro sys_inv_job [OF I j jt wt]) (auto simp: at ht record_answer_def split: sum.splits)
qed

lemma inv_finalize:
  assumes I: "sys_inv X st s" and t: "step_finalize j s = Some t"
  shows "sys_inv X st t"
proof -
  from t obtain tk r attached where j: "hm_get (jobs s) j = Some (Finalizing tk r attached)"
    and t': "t = set_job j (if attached then Answering tk r else Gone) (s\<lparr>app := finalize_ticket tk r (app s)\<rparr>)"
    by (auto simp: step_finalize_def split: option.splits phase.splits)
  note L = sys_invD(3) [OF I]
  have "ledger_ok (rate_limit_cooldown st) REQUEST_TIMEOUT (rate_limit_max_attempts st)
      (rate_limit_max_identifiers st) (wall s) (identifier_rate_limit (finalize_ticket tk r (app s)))
      ((system_owners s)(j := None)) (set (answers s))"
  proof (cases "tk_is_new tk")
    case False
    then have "(system_owners s)(j := None) = system_owners s" using owners_job [OF j] by auto
    then show ?thesis using False L by (simp add: finalize_ticket_def)
  next
    case True
    then have "system_owners s j = Some (tk, case r of Inl _ \<Rightarrow> False | Inr _ \<Rightarrow> True)"
      using owners_job [OF j] by simp
    then show ?thesis
      using True ledger_commit [OF L, of j tk] ledger_refund [OF L, of j tk]
        finalize_error_eq [OF ledger_okD(1) [OF L]]
      by (cases r) (simp_all add: finalize_ticket_def)
  qed
  then show ?thesis
    using sys_invD(2,4) [OF I] t' by (intro sys_inv_job [OF I j]) (auto split: if_splits)
qed

lemma inv_answer:
  assumes I: "sys_inv X st s" and t: "step_answer j s = Some t"
  shows "sys_inv X st t"
proof -
  from t obtain tk r where j: "hm_get (jobs s) j = Some (Answering tk r)"
    and t': "t = set_job j (Responded (fetch_answer (app s) tk r)) s"
    by (auto simp: step_answer_def split: option.splits phase.splits)
  show ?thesis unfolding t' by (rule inv_set_job [OF I j]) auto
qed

lemma inv_store_token:
  assumes I: "sys_inv X st s" and t: "step_store_token X j created s = Some t"
  shows "sys_inv X st t"
proof -
  from t obtain request r st' where j: "hm_get (jobs s) j = Some (Store_Received request)"
    and r: "store_entry_step X request (mono s) created (app s) = (r, st')"
    and t': "t = set_job j (case r of Inl response \<Rightarrow> Responded response | Inr key \<Rightarrow> Store_Permit_Wait key)
        (s\<lparr>app := st'\<rparr>)"
    by (auto simp: step_store_token_def Let_def split: option.splits phase.splits prod.splits)
  show ?thesis
    by (rule sys_inv_phase [OF I j])
      (use r store_entry_frame [OF r] store_entry_polite [of X request "mono s" created "app s" _ st']
        sys_invD(2) [OF I] in \<open>auto simp: t' split: sum.splits\<close>)
qed

lemma inv_store_permit:
  assumes I: "sys_inv X st s" and t: "step_store_permit j s = Some t"
  shows "sys_inv X st t"
proof -
  from t obtain key where j: "hm_get (jobs s) j = Some (Store_Permit_Wait key)"
    and n: "0 < database_semaphore (app s)"
    and t': "t = set_job j (Store_Writing key True) (s\<lparr>app := acquire_permit (app s)\<rparr>)"
    by (auto simp: step_store_permit_def split: option.splits phase.splits if_splits)
  show ?thesis
    by (rule sys_inv_phase [OF I j]) (use n t' sys_invD(2) [OF I] in auto)
qed

lemma inv_store_permit_timed_out:
  assumes I: "sys_inv X st s" and t: "step_store_permit_timed_out j s = Some t"
  shows "sys_inv X st t"
proof -
  from t obtain key where j: "hm_get (jobs s) j = Some (Store_Permit_Wait key)"
    and t': "t = set_job j (Responded database_busy_response) s"
    by (auto simp: step_store_permit_timed_out_def split: option.splits phase.splits)
  show ?thesis unfolding t' by (rule inv_set_job [OF I j]) auto
qed

lemma inv_store_write:
  assumes I: "sys_inv X st s" and t: "step_store_write E j s = Some t"
  shows "sys_inv X st t"
proof -
  from t obtain key attached where j: "hm_get (jobs s) j = Some (Store_Writing key attached)"
    by (auto simp: step_store_write_def split: option.splits phase.splits)
  show ?thesis
    by (rule sys_inv_phase [OF I j,
          where p' = "if attached then Store_Answering (fst (blocking_write E key (db s))) else Gone"])
      (use t j sys_invD(2) [OF I] in \<open>auto simp: step_store_write_def Let_def split_beta\<close>)
qed

lemma inv_store_answer:
  assumes I: "sys_inv X st s" and t: "step_store_answer j s = Some t"
  shows "sys_inv X st t"
proof -
  from t obtain r where j: "hm_get (jobs s) j = Some (Store_Answering r)"
    and t': "t = set_job j (Responded (store_answer r)) s"
    by (auto simp: step_store_answer_def split: option.splits phase.splits)
  show ?thesis unfolding t' by (rule inv_set_job [OF I j]) auto
qed

lemma inv_sweep:
  assumes I: "sys_inv X st s" and t: "step_sweep lag s = Some t"
  shows "sys_inv X st t"
proof -
  have t': "t = s\<lparr>app := sweep_state (wall s - int lag) (app s)\<rparr>" using t by (simp add: step_sweep_def)
  note L = sys_invD(3) [OF I]
  have "ledger_ok (rate_limit_cooldown st) REQUEST_TIMEOUT (rate_limit_max_attempts st)
      (rate_limit_max_identifiers st) (wall s) (identifier_rate_limit (app t)) (system_owners s) (set (answers s))"
    using ledger_expire [OF L expires_sweep sweep_wf [OF ledger_okD(1) [OF L]], of "wall s - int lag"]
      sys_invD(2) [OF I] t' by (simp add: sweep_state_def same_limits_def)
  then show ?thesis
    using sys_invD [OF I] same_jobs [of t s] t' by (simp add: sys_inv_def sweep_state_def)
qed

lemma system_step_inv:
  assumes I: "sys_inv X st s" and t: "system_step X E e s = Some t"
  shows "sys_inv X st t"
proof (cases e)
  case (Arrive_Fetch j request tr)
  then show ?thesis using inv_arrive [OF I, of j "Received request tr"] t by simp
next
  case (Arrive_Store j request)
  then show ?thesis using inv_arrive [OF I, of j "Store_Received request"] t by simp
qed (use t inv_tick [OF I] inv_lookup_token [OF I] inv_admit [OF I] inv_permit [OF I]
    inv_permit_timed_out [OF I] inv_timeout_cleanup [OF I] inv_cancel [OF I] inv_run_deferred [OF I]
    inv_query [OF I] inv_finalize [OF I] inv_answer [OF I] inv_store_token [OF I]
    inv_store_permit [OF I] inv_store_permit_timed_out [OF I] inv_store_write [OF I]
    inv_store_answer [OF I] inv_sweep [OF I] in simp_all)

interpretation server: guarded_machine "system_step X E" "sys_inv X st" for X E st
  by unfold_locales (rule system_step_inv)

section \<open>The reachable states\<close>

lemma boot_inv:
  assumes "limits_ok st"
  shows "sys_inv X st (boot st w m d)"
proof -
  have "system_owners (boot st w m d) = Map.empty" and "permit_holders (boot st w m d) = {}"
    by (simp_all add: fun_eq_iff system_owners_def permit_holders_def boot_def hm_simps)
  then show ?thesis
    using assms
    by (simp add: sys_inv_def boot_def same_limits_def hm_simps ledger_defs held_def
        window_candidates_def map_wf_def answers_backed_def)
qed

lemma reachable_inv: "limits_ok st \<Longrightarrow> reachable X E (boot st w m d) s \<Longrightarrow> sys_inv X st s"
  by (rule server.reach_inv) (auto intro: boot_inv)

end
