(* ===== verification/Scenario.thy ===== *)
theory Scenario
  imports System_Safety
begin

text \<open>
  A small server and a run of it, evaluated: a budget of two candidates, one database permit and
  an empty database. A first request is looked up and refused; a second candidate for the same
  identifier is admitted and waits for its permit. The properties of reachable states are
  witnessed on this run.
\<close>

definition demo_state :: AppState where
  "demo_state =
     \<lparr>server_address = ''127.0.0.1:3001'', database_url = ''db'', canary = ''ok'',
      canary_from_env = True, canary_path = ''.env'', canary_cache = None,
      rate_limit_cooldown = nanos_per_minute, identifier_rate_limit = fmempty,
      secret_max_length = 256, rate_limit_max_attempts = 2,
      store_token_bucket = TokenBucket_new 10 2 0, lookup_token_bucket = TokenBucket_new 100 5 0,
      attempts_token_bucket = TokenBucket_new 20 2 0, rate_limit_max_identifiers = 2,
      database_semaphore = 1, attempts_collection_started_at = 0, attempts_snapshot = None,
      attempts_snapshot_ttl = 60 * 10 ^ 9\<rparr>"

definition demo_db :: table_db where
  "demo_db = \<lparr>table_rows = fmempty, table_saved = fmempty, faults = []\<rparr>"

definition demo_boot :: "table_db System" where
  "demo_boot = boot demo_state 0 0 demo_db"

definition demo_request :: "char \<Rightarrow> FetchSecret" where
  "demo_request k = \<lparr>fs_identifier = replicate 64 CHR ''a'', fs_authentication_key = replicate 64 k\<rparr>"

definition demo_hash :: string where
  "demo_hash = sha256_hex reference_externals (the (decode_hex (replicate 64 CHR ''a'')))"

definition demo_tag :: "char \<Rightarrow> CandidateTag" where
  "demo_tag k = generate_secret_id reference_externals (replicate 64 CHR ''a'') (replicate 64 k)"

definition demo_events :: "event list" where
  "demo_events =
     [Arrive_Fetch 0 (demo_request CHR ''b'') False, Lookup_Token 0, Admit 0, Permit_Granted 0,
      Query 0, Finalize 0, Answer 0, Arrive_Fetch 1 (demo_request CHR ''c'') False, Lookup_Token 1,
      Admit 1]"

text \<open>The tickets of the two requests, and the state the run ends in.\<close>

definition demo_ticket :: "char \<Rightarrow> u8 \<Rightarrow> u8 \<Rightarrow> DateTime option \<Rightarrow> Ticket" where
  "demo_ticket k n failed previous =
     \<lparr>tk_id_hash = demo_hash, tk_candidate = demo_tag k, tk_generation = 0, tk_requested_at = 0,
      tk_status = \<lparr>as_version = 1, as_total_attempts = n, as_failed_attempts = failed,
        as_remaining_attempts = 2 - n, as_total_requests = ucast n,
        as_window_started_at = 0, as_previous_attempt_at = previous, as_resets_at = nanos_per_minute\<rparr>,
      tk_is_new = True, tk_is_trash = False\<rparr>"

definition demo_info :: RateLimitInfo where
  "demo_info =
     \<lparr>window_started_at = 0, last_candidate_at = 0, last_request_at = 0,
      candidates = hm_insert (demo_tag CHR ''c'') Pending (hm_insert (demo_tag CHR ''b'') Committed fmempty),
      failed_candidates = 1, total_requests = 2\<rparr>"

definition demo_system ::
  "RateLimitMap \<Rightarrow> rat \<Rightarrow> (nat, phase) hash_map \<Rightarrow> (Ticket \<times> Secret option) list \<Rightarrow> table_db System" where
  "demo_system m n js h =
     \<lparr>wall = 0, mono = 0,
      app = demo_state\<lparr>identifier_rate_limit := m,
        lookup_token_bucket := \<lparr>tokens = n, capacity = 100, refill_per_second = 5, last_refill = 0\<rparr>\<rparr>,
      db = demo_db, jobs = js, answers = h\<rparr>"

text \<open>After the first admission, after its answer, and at the end.\<close>

definition demo_admitted :: "table_db System" where
  "demo_admitted = demo_system
     (hm_insert demo_hash (demo_info
        \<lparr>candidates := hm_insert (demo_tag CHR ''b'') Pending fmempty, failed_candidates := 0,
         total_requests := 1\<rparr>) fmempty) 99
     (hm_insert 0 (Permit_Wait (demo_ticket CHR ''b'' 1 0 None)) fmempty) []"

definition demo_response :: phase where
  "demo_response = Responded (fetch_answer demo_state (demo_ticket CHR ''b'' 1 0 None) (Inr None))"

definition demo_answered :: "table_db System" where
  "demo_answered = demo_system
     (hm_insert demo_hash (demo_info
        \<lparr>candidates := hm_insert (demo_tag CHR ''b'') Committed fmempty, total_requests := 1\<rparr>) fmempty) 99
     (hm_insert 0 demo_response fmempty)
     [(demo_ticket CHR ''b'' 1 0 None, None)]"

definition demo_final :: "table_db System" where
  "demo_final = demo_system (hm_insert demo_hash demo_info fmempty) 98
     (hm_insert 1 (Permit_Wait (demo_ticket CHR ''c'' 2 1 (Some 0))) (hm_insert 0 demo_response fmempty))
     [(demo_ticket CHR ''b'' 1 0 None, None)]"

lemma f64_round_nat: "n < 2 ^ 53 \<Longrightarrow> f64_round (of_nat n) = of_nat n"
  using representable_of_nat [of n] by (simp add: representable_def)

lemma demo_chars:
  "is_ascii_hexdigit CHR ''a''" "is_ascii_hexdigit CHR ''b''" "is_ascii_hexdigit CHR ''c''"
  "to_ascii_lowercase CHR ''a'' = CHR ''a''" "to_ascii_lowercase CHR ''b'' = CHR ''b''"
  "to_ascii_lowercase CHR ''c'' = CHR ''c''"
  by code_simp+

lemma demo_hash_eq: "identifier_hash reference_externals (replicate 64 CHR ''a'') = Some demo_hash"
proof -
  have "decode_hex (replicate 64 CHR ''a'') \<noteq> None"
    unfolding decode_hex_iff by (simp add: is_hex_def list_all_iff demo_chars)
  then show ?thesis
    by (auto simp: identifier_hash_def demo_hash_def reference_externals_def)
qed

lemma demo_tags: "demo_tag CHR ''b'' \<noteq> demo_tag CHR ''c''"
proof
  assume "demo_tag CHR ''b'' = demo_tag CHR ''c''"
  then have "encode_hex (replicate 64 CHR ''a'' @ replicate 64 CHR ''b'')
      = encode_hex (replicate 64 CHR ''a'' @ replicate 64 CHR ''c'')"
    by (simp add: demo_tag_def generate_secret_id_def sha256_hex_def reference_externals_def)
  then have "replicate 64 CHR ''a'' @ replicate 64 CHR ''b'' = replicate 64 CHR ''a'' @ replicate 64 CHR ''c''"
    by (metis decode_encode_hex option.inject)
  then show False by (simp add: replicate_eq_replicate)
qed

lemma demo_validate:
  "k = CHR ''b'' \<or> k = CHR ''c'' \<Longrightarrow>
     fetch_validate reference_externals (demo_request k) = Inr (replicate 64 CHR ''a'', replicate 64 k)"
  by (auto simp: fetch_validate_def demo_request_def to_lowercase_def is_ascii_hexdigit_ascii
      is_256bits_hex_hash_def is_length_def is_hex_def list_all_iff demo_chars)

lemma demo_words:
  "\<not> (2::u8) \<le> 1" "(0::u8) < 1" "saturating_add 0 1 = (1::u64)" "saturating_add 1 1 = (2::u64)"
  "saturating_add 0 1 = (1::u8)" "saturating_sub 2 1 = (1::u8)" "saturating_sub 2 2 = (0::u8)"
  by (simp_all add: saturating_add_def saturating_sub_def word_le_nat_alt)

lemmas demo_defs = boot_def step_arrive_def set_job_def step_lookup_token_def fetch_entry_step_def
  step_admit_def REQUEST_TIMEOUT_def admit_state_def admit_def drop_expired_def make_room_def
  decide_def touch_entry_def RateLimitInfo_new_def candidate_count_def try_into_u8_def
  attempt_status_def phase_after_admission_def make_ticket_def step_permit_def acquire_permit_def
  step_query_def step_finalize_def step_answer_def TokenBucket_new_def try_consume_def Let_def
  f64_add_def f64_mul_def f64_sub_def take_lookup_token_def blocking_lookup_def
  establish_connection_def read_secret_by_id_def table_engine_def next_fault_def record_answer_def
  release_permit_def finalize_ticket_def with_map_def finalize_def fetch_answer_def cooldown_minutes_def

lemma demo_run_first:
  "system_run reference_externals table_engine (take 3 demo_events) demo_boot = Some demo_admitted"
  using f64_round_nat [of 100] f64_round_nat [of 99]
  by (simp add: demo_defs hm_simps demo_words demo_validate demo_hash_eq demo_tag_def [symmetric]
      demo_events_def demo_boot_def demo_admitted_def demo_system_def demo_state_def demo_db_def demo_info_def demo_ticket_def)

lemma demo_run_lookup:
  "system_run reference_externals table_engine (take 4 (drop 3 demo_events)) demo_admitted = Some demo_answered"
  by (simp add: demo_defs hm_simps demo_words demo_admitted_def demo_answered_def demo_response_def
      demo_events_def demo_system_def demo_state_def demo_db_def demo_info_def demo_ticket_def)

lemma demo_run_second:
  "system_run reference_externals table_engine (drop 7 demo_events) demo_answered = Some demo_final"
  using f64_round_nat [of 98] f64_round_nat [of 99] demo_tags
  by (simp add: demo_defs hm_simps demo_words demo_validate demo_hash_eq demo_tag_def [symmetric]
      demo_events_def demo_answered_def demo_final_def demo_system_def demo_state_def demo_db_def demo_info_def demo_ticket_def)

lemma demo_run: "system_run reference_externals table_engine demo_events demo_boot = Some demo_final"
proof -
  have "demo_events = take 3 demo_events @ take 4 (drop 3 demo_events) @ drop 7 demo_events"
    by (simp add: demo_events_def)
  then show ?thesis
    using demo_run_first demo_run_lookup demo_run_second
    by (metis guarded_run_append option.simps(5))
qed

lemma demo_limits: "limits_ok demo_state"
  by (simp add: limits_ok_def demo_state_def)

lemma demo_reachable:
  "reachable reference_externals table_engine (boot demo_state 0 0 demo_db) demo_final"
  using guarded_run_reach [OF reach_start demo_run] by (simp add: demo_boot_def)

text \<open>A third request finds the budget used up, whatever its candidate.\<close>

definition demo_rejected :: "table_db System" where
  "demo_rejected = demo_system
     (hm_insert demo_hash (demo_info\<lparr>total_requests := 3\<rparr>) fmempty) 97
     (hm_insert 2 (Responded (rate_limited nanos_per_minute 2 0 0)) (jobs demo_final))
     [(demo_ticket CHR ''b'' 1 0 None, None)]"

lemma demo_run_third:
  "system_run reference_externals table_engine
     [Arrive_Fetch 2 (demo_request CHR ''b'') True, Lookup_Token 2, Admit 2] demo_final = Some demo_rejected"
proof -
  have "saturating_add 2 1 = (3::u64)" by (simp add: saturating_add_def)
  then show ?thesis
    using f64_round_nat [of 98] f64_round_nat [of 97] demo_tags
    by (simp add: demo_defs hm_simps demo_words demo_validate demo_hash_eq
        demo_rejected_def demo_final_def demo_system_def demo_state_def demo_info_def)
qed

lemma demo_rejected_reachable:
  "reachable reference_externals table_engine (boot demo_state 0 0 demo_db) demo_rejected"
  using guarded_run_reach [OF demo_reachable demo_run_third] .

end
