(* ===== verification/Attempts_Handler.thy ===== *)
theory Attempts_Handler
  imports Limiter_Spec Scenario "HOL-Library.List_Lexorder" "HOL-Library.Char_ord" "HOL-Library.Multiset"
begin

text \<open>
  \<open>get_attempts\<close>, \<open>build_snapshot\<close> and \<open>remaining_max_age\<close> of \<open>src/handlers/attempts.rs\<close>: the
  public telemetry snapshot and its cache. The iteration order of the hash map, the JSON and gzip
  encoders are parameters (\<open>snapshot_codec\<close>).
\<close>

section \<open>The entries of a snapshot\<close>

text \<open>
  \<open>HashMap::iter\<close> visits every entry once, in no fixed order; \<open>to_json\<close> is \<open>serde_json\<close> on the
  payload, \<open>gzip\<close> the encoder of \<open>flate2\<close>, which may report an IO error.
\<close>

record snapshot_codec =
  iter :: "RateLimitMap \<Rightarrow> (string \<times> RateLimitInfo) list"
  to_json :: "AttemptsSnapshot \<Rightarrow> rust_bytes"
  gzip :: "rust_bytes \<Rightarrow> string + rust_bytes"

definition iter_ok :: "snapshot_codec \<Rightarrow> bool" where
  "iter_ok C \<longleftrightarrow> (\<forall>m. distinct (map fst (iter C m)) \<and> (\<forall>i info. (i, info) \<in> set (iter C m) \<longleftrightarrow> hm_get m i = Some info))"

text \<open>\<open>None\<close> is the panic of an \<open>expect\<close> in \<open>candidate_count\<close> or \<open>truncate_to_hour\<close>.\<close>

definition attempt_entry :: "externals \<Rightarrow> string \<times> RateLimitInfo \<Rightarrow> AttemptEntry option" where
  "attempt_entry X p =
     (case (candidate_count (snd p), truncate_to_hour X (window_started_at (snd p)),
            truncate_to_hour X (last_request_at (snd p))) of
        (Some n, Some window, Some last_attempt) \<Rightarrow> Some
          \<lparr>ae_id_hash = fst p, ae_total_attempts = n, ae_failed_attempts = failed_candidates (snd p),
           ae_total_requests = total_requests (snd p), ae_window_started_at = window,
           ae_last_attempt_at = last_attempt\<rparr>
      | _ \<Rightarrow> None)"

fun collect_entries :: "externals \<Rightarrow> (string \<times> RateLimitInfo) list \<Rightarrow> AttemptEntry list option" where
  "collect_entries X [] = Some []"
| "collect_entries X (p # ps) =
     (case attempt_entry X p of
        None \<Rightarrow> None
      | Some e \<Rightarrow> (case collect_entries X ps of None \<Rightarrow> None | Some es \<Rightarrow> Some (e # es)))"

text \<open>The payload: the retained entries, sorted by identifier hash after the lock is released.\<close>

definition snapshot_payload ::
  "externals \<Rightarrow> snapshot_codec \<Rightarrow> DateTime \<Rightarrow> RateLimitMap \<Rightarrow> AttemptsSnapshot option" where
  "snapshot_payload X C started m =
     (case (collect_entries X (iter C m), truncate_to_hour X started) of
        (Some entries, Some t) \<Rightarrow> Some
          \<lparr>snap_version = 1, snap_collection_started_at = t, snap_entries = sort_key ae_id_hash entries\<rparr>
      | _ \<Rightarrow> None)"

definition compress ::
  "externals \<Rightarrow> snapshot_codec \<Rightarrow> instant \<Rightarrow> AttemptsSnapshot \<Rightarrow> string + AttemptsSnapshotCache" where
  "compress X C built_at payload =
     (case gzip C (to_json C payload) of
        Inl e \<Rightarrow> Inl e
      | Inr gz \<Rightarrow> Inr \<lparr>gzip_body = gz, etag = CHR 0x22 # sha256_hex X gz @ [CHR 0x22], created_at = built_at\<rparr>)"

definition snapshot_error_response :: Response where
  "snapshot_error_response = plain_response INTERNAL_SERVER_ERROR (error_body ''Internal server error'')"

text \<open>
  \<open>build_snapshot\<close> in its two halves: \<open>collect_snapshot\<close> runs under the lock of the map (\<open>now\<close> is the
  wall clock read before it), \<open>finish_snapshot\<close> awaits the blocking task that compresses. \<open>built_at\<close>
  is the instant the task ends, \<open>joined\<close> whether it returned (a join error otherwise). The result is
  a panic (\<open>None\<close>), an error response, or the snapshot.
\<close>

definition collect_snapshot ::
  "externals \<Rightarrow> snapshot_codec \<Rightarrow> DateTime \<Rightarrow> AppState \<Rightarrow> AttemptsSnapshot option \<times> AppState" where
  "collect_snapshot X C now st =
     (let st' = with_map (hm_retain (active (rate_limit_cooldown st) now)) st
      in (snapshot_payload X C (attempts_collection_started_at st) (identifier_rate_limit st'), st'))"

definition finish_snapshot ::
  "externals \<Rightarrow> snapshot_codec \<Rightarrow> instant \<Rightarrow> bool \<Rightarrow> AttemptsSnapshot \<Rightarrow> Response + AttemptsSnapshotCache" where
  "finish_snapshot X C built_at joined payload =
     (if \<not> joined then Inl snapshot_error_response
      else (case compress X C built_at payload of
              Inl _ \<Rightarrow> Inl snapshot_error_response
            | Inr snapshot \<Rightarrow> Inr snapshot))"

definition build_snapshot ::
  "externals \<Rightarrow> snapshot_codec \<Rightarrow> DateTime \<Rightarrow> instant \<Rightarrow> bool \<Rightarrow> AppState
     \<Rightarrow> (Response + AttemptsSnapshotCache) option \<times> AppState" where
  "build_snapshot X C now built_at joined st =
     (let (payload, st') = collect_snapshot X C now st
      in (map_option (finish_snapshot X C built_at joined) payload, st'))"

lemmas build_snapshot_defs = build_snapshot_def collect_snapshot_def finish_snapshot_def

definition remaining_max_age :: "nat \<Rightarrow> nat \<Rightarrow> u64" where
  "remaining_max_age elapsed ttl =
     (let remaining = ttl - elapsed
      in max (of_nat (remaining div 10 ^ 9) + (if 0 < remaining mod 10 ^ 9 then 1 else 0)) 1)"

section \<open>Conditional requests\<close>

fun split_comma :: "string \<Rightarrow> string list" where
  "split_comma [] = [[]]"
| "split_comma (c # cs) =
     (if c = CHR '','' then [] # split_comma cs
      else (case split_comma cs of [] \<Rightarrow> [[c]] | w # ws \<Rightarrow> (c # w) # ws))"

definition is_space :: "char \<Rightarrow> bool" where
  "is_space c \<longleftrightarrow> char_code c = 32 \<or> 9 \<le> char_code c \<and> char_code c \<le> 13"

definition trim :: "string \<Rightarrow> string" where
  "trim s = rev (dropWhile is_space (rev (dropWhile is_space s)))"

definition strip_weak :: "string \<Rightarrow> string" where
  "strip_weak s = (if take 2 s = ''W/'' then drop 2 s else s)"

text \<open>The header value as \<open>to_str\<close> gives it; \<open>None\<close> without the header or outside visible ASCII.\<close>

definition not_modified :: "string option \<Rightarrow> string \<Rightarrow> bool" where
  "not_modified if_none_match tag =
     (case if_none_match of
        None \<Rightarrow> False
      | Some value \<Rightarrow>
          list_ex (\<lambda>candidate. (let c = strip_weak (trim candidate) in c = ''*'' \<or> c = tag)) (split_comma value))"

definition snapshot_response :: "string option \<Rightarrow> AttemptsSnapshotCache \<Rightarrow> u64 \<Rightarrow> Response" where
  "snapshot_response if_none_match snapshot max_age =
     (if not_modified if_none_match (etag snapshot)
      then \<lparr>status = NOT_MODIFIED,
            headers = [Cache_Control_Max_Age max_age, ETag (etag snapshot)],
            body = Empty\<rparr>
      else \<lparr>status = OK,
            headers = [Content_Type ''application/json'', Content_Encoding ''gzip'',
                       Cache_Control_Max_Age max_age, ETag (etag snapshot)],
            body = Bytes (gzip_body snapshot)\<rparr>)"

section \<open>The handler\<close>

text \<open>The readings of the clocks in the order the handler makes them.\<close>

record attempts_times =
  at_token :: instant
  at_check :: instant
  at_wall :: DateTime
  at_built :: instant
  at_reply :: instant

definition stale :: "AttemptsSnapshotCache option \<Rightarrow> instant \<Rightarrow> nat \<Rightarrow> bool" where
  "stale cached now ttl = (case cached of None \<Rightarrow> True | Some snapshot \<Rightarrow> ttl \<le> now - created_at snapshot)"

definition refresh ::
  "externals \<Rightarrow> snapshot_codec \<Rightarrow> attempts_times \<Rightarrow> bool \<Rightarrow> AppState
     \<Rightarrow> (Response + AttemptsSnapshotCache) option \<times> AppState" where
  "refresh X C t joined st =
     (case (attempts_snapshot st, stale (attempts_snapshot st) (at_check t) (attempts_snapshot_ttl st)) of
        (Some snapshot, False) \<Rightarrow> (Some (Inr snapshot), st)
      | _ \<Rightarrow>
          (case build_snapshot X C (at_wall t) (at_built t) joined st of
             (Some (Inr snapshot), st') \<Rightarrow> (Some (Inr snapshot), st'\<lparr>attempts_snapshot := Some snapshot\<rparr>)
           | r \<Rightarrow> r))"

definition attempts_overload_response :: Response where
  "attempts_overload_response =
     retry_after_response SERVICE_UNAVAILABLE GLOBAL_OVERLOAD_RETRY_AFTER_SECS
       ''Too many attempts telemetry requests, retry later''"

lemma attempts_overload_status [simp]: "status attempts_overload_response = SERVICE_UNAVAILABLE"
  by (simp add: attempts_overload_response_def)

definition get_attempts ::
  "externals \<Rightarrow> snapshot_codec \<Rightarrow> attempts_times \<Rightarrow> bool \<Rightarrow> string option \<Rightarrow> AppState
     \<Rightarrow> Response option \<times> AppState" where
  "get_attempts X C t joined if_none_match st =
     (let (ok, st1) = take_attempts_token (at_token t) st
      in if \<not> ok
         then (Some attempts_overload_response, st1)
         else
           (case refresh X C t joined st1 of
              (None, st2) \<Rightarrow> (None, st2)
            | (Some (Inl response), st2) \<Rightarrow> (Some response, st2)
            | (Some (Inr snapshot), st2) \<Rightarrow>
                (Some (snapshot_response if_none_match snapshot
                   (remaining_max_age (at_reply t - created_at snapshot) (attempts_snapshot_ttl st2))), st2)))"

section \<open>Entries\<close>

abbreviation hour :: TimeDelta where
  "hour \<equiv> 3600 * nanos_per_second"

definition telemetry_entry :: "string \<Rightarrow> RateLimitInfo \<Rightarrow> AttemptEntry" where
  "telemetry_entry i info =
     \<lparr>ae_id_hash = i, ae_total_attempts = of_nat (hm_len (candidates info)),
      ae_failed_attempts = failed_candidates info, ae_total_requests = total_requests info,
      ae_window_started_at = window_started_at info - window_started_at info mod hour,
      ae_last_attempt_at = last_request_at info - last_request_at info mod hour\<rparr>"

text \<open>Timestamps that 64-bit nanoseconds hold, the range \<open>duration_trunc\<close> accepts.\<close>

definition time_ok :: "DateTime \<Rightarrow> bool" where
  "time_ok t \<longleftrightarrow> - (2 ^ 63) \<le> t \<and> t < 2 ^ 63"

lemma truncate_to_hour_ok: "trunc_ok X \<Longrightarrow> time_ok t \<Longrightarrow> truncate_to_hour X t = Some (t - t mod hour)"
  by (simp add: trunc_ok_def time_ok_def truncate_to_hour_def)

lemma attempt_entry_ok:
  assumes "trunc_ok X" "info_wf a info" "time_ok (window_started_at info)" "time_ok (last_request_at info)"
  shows "attempt_entry X (i, info) = Some (telemetry_entry i info)"
proof -
  have "hm_len (candidates info) < 256"
    using assms(2) unat_less_256 [of a] by (simp add: info_wf_def budget_ok_def)
  then show ?thesis
    using assms by (simp add: attempt_entry_def candidate_count_small truncate_to_hour_ok telemetry_entry_def)
qed

lemma attempt_entry_id: "attempt_entry X p = Some e \<Longrightarrow> ae_id_hash e = fst p"
  by (auto simp: attempt_entry_def split: option.splits)

lemma collect_entries_map:
  "(\<And>p. p \<in> set ps \<Longrightarrow> attempt_entry X p = Some (f p)) \<Longrightarrow> collect_entries X ps = Some (map f ps)"
  by (induction ps) simp_all

lemma collect_entries_set:
  "collect_entries X ps = Some es \<Longrightarrow> set es = {e. \<exists>p\<in>set ps. attempt_entry X p = Some e}"
  by (induction ps arbitrary: es) (auto split: option.splits)

lemma collect_entries_None:
  "collect_entries X ps = None \<longleftrightarrow> (\<exists>p\<in>set ps. attempt_entry X p = None)"
  by (induction ps) (auto split: option.splits)

lemma collect_entries_ids: "collect_entries X ps = Some es \<Longrightarrow> map ae_id_hash es = map fst ps"
  by (induction ps arbitrary: es) (auto simp: attempt_entry_id split: option.splits)

lemma iter_set: "iter_ok C \<Longrightarrow> (i, info) \<in> set (iter C m) \<longleftrightarrow> hm_get m i = Some info"
  by (simp add: iter_ok_def)

lemma sort_key_unique:
  assumes "set xs = set ys" "distinct (map f xs)" "distinct (map f ys)"
  shows "sort_key f xs = sort_key f ys"
proof (rule map_sorted_distinct_set_unique)
  show "inj_on f (set (sort_key f xs) \<union> set (sort_key f ys))"
    using assms by (simp add: distinct_map)
  have "mset (map f (sort_key f zs)) = mset (map f zs)" for zs by simp
  then show "distinct (map f (sort_key f xs))" "distinct (map f (sort_key f ys))"
    using assms(2,3) mset_eq_imp_distinct_iff by blast+
qed (use assms(1) in simp_all)

lemma sort_key_strict:
  assumes "distinct (map f xs)"
  shows "sorted_wrt (<) (map f (sort_key f xs))"
proof -
  have "mset (map f (sort_key f xs)) = mset (map f xs)" by simp
  then have "distinct (map f (sort_key f xs))" using assms mset_eq_imp_distinct_iff by blast
  then show ?thesis by (simp add: strict_sorted_iff)
qed

text \<open>Whatever the timestamps are, a payload that is built has one entry for each identifier, in order.\<close>

lemma snapshot_payload_entries:
  assumes "iter_ok C" "snapshot_payload X C started m = Some p"
  shows "sorted_wrt (<) (map ae_id_hash (snap_entries p)) \<and> ae_id_hash ` set (snap_entries p) = hm_keys m \<and>
    set (snap_entries p) = {e. \<exists>i info. hm_get m i = Some info \<and> attempt_entry X (i, info) = Some e}"
proof -
  obtain es where es: "collect_entries X (iter C m) = Some es" "snap_entries p = sort_key ae_id_hash es"
    using assms(2) by (auto simp: snapshot_payload_def split: option.splits)
  have ids: "map ae_id_hash es = map fst (iter C m)" using es(1) by (rule collect_entries_ids)
  then have "distinct (map ae_id_hash es)" using assms(1) by (simp add: iter_ok_def)
  moreover have "ae_id_hash ` set es = hm_keys m"
  proof -
    have "ae_id_hash ` set es = fst ` set (iter C m)" using ids by (metis image_set)
    also have "\<dots> = hm_keys m" by (force simp: hm_keys_get iter_set [OF assms(1), symmetric])
    finally show ?thesis .
  qed
  moreover have "set es = {e. \<exists>i info. hm_get m i = Some info \<and> attempt_entry X (i, info) = Some e}"
    using collect_entries_set [OF es(1)] by (force simp: iter_set [OF assms(1), symmetric])
  ultimately show ?thesis using es(2) sort_key_strict by simp
qed

section \<open>A concrete codec\<close>

text \<open>Iteration in the order of the keys, and the simplest encoders.\<close>

definition reference_codec :: snapshot_codec where
  "reference_codec =
     \<lparr>iter = sorted_list_of_fmap, to_json = (\<lambda>p. map (\<lambda>_. CHR ''e'') (snap_entries p)), gzip = Inr\<rparr>"

definition reversed_codec :: snapshot_codec where
  "reversed_codec = reference_codec\<lparr>iter := \<lambda>m. rev (sorted_list_of_fmap m)\<rparr>"

lemma sorted_list_of_fmap_iter:
  "distinct (map fst (sorted_list_of_fmap m)) \<and> ((i, info) \<in> set (sorted_list_of_fmap m) \<longleftrightarrow> hm_get m i = Some info)"
  by (auto simp: sorted_list_of_fmap_def hm_get_def o_def fmlookup_dom_iff sorted_list_of_fset.rep_eq)

lemma codec_ok: "iter_ok reference_codec" "iter_ok reversed_codec"
  by (simp_all add: iter_ok_def reference_codec_def reversed_codec_def rev_map [symmetric] sorted_list_of_fmap_iter)

section \<open>Properties of the telemetry\<close>

text \<open>
  What \<open>/attempts\<close> publishes: on a well-formed map the snapshot builds without panic, has one
  entry for each retained identifier and no other, in strictly increasing order of the hashes, and
  each entry shows the number of distinct candidates, the two counters and hour-truncated times.
\<close>

lemma snapshot_contents:
  assumes "iter_ok C" "trunc_ok X" "map_wf a b m" "time_ok started"
    and "\<And>i info. hm_get m i = Some info \<Longrightarrow> time_ok (window_started_at info) \<and> time_ok (last_request_at info)"
  shows "\<exists>p. snapshot_payload X C started m = Some p \<and> sorted_wrt (<) (map ae_id_hash (snap_entries p)) \<and>
    set (snap_entries p) = {telemetry_entry i info | i info. hm_get m i = Some info} \<and>
    snap_collection_started_at p = started - started mod hour"
proof -
  let ?f = "\<lambda>p. telemetry_entry (fst p) (snd p)"
  let ?es = "sort_key ae_id_hash (map ?f (iter C m))"
  have "attempt_entry X p = Some (?f p)" if "p \<in> set (iter C m)" for p
  proof (cases p)
    case (Pair i info)
    then have H: "hm_get m i = Some info" using that by (simp add: iter_set [OF assms(1)])
    with Pair show ?thesis
      using assms(5) attempt_entry_ok [OF assms(2) map_wf_get [OF assms(3) H]] by simp
  qed
  then have "snapshot_payload X C started m = Some
      \<lparr>snap_version = 1, snap_collection_started_at = started - started mod hour, snap_entries = ?es\<rparr>"
    using assms(2,4) by (simp add: snapshot_payload_def collect_entries_map [of _ X ?f] truncate_to_hour_ok)
  moreover have "distinct (map ae_id_hash ?es)"
  proof -
    have "map ae_id_hash (map ?f (iter C m)) = map fst (iter C m)"
      by (simp add: telemetry_entry_def)
    then have "distinct (map ae_id_hash (map ?f (iter C m)))"
      using assms(1) unfolding iter_ok_def by metis
    moreover have "mset (map ae_id_hash ?es) = mset (map ae_id_hash (map ?f (iter C m)))"
      by (simp only: mset_map mset_sort)
    ultimately show ?thesis using mset_eq_imp_distinct_iff by blast
  qed
  then have "sorted_wrt (<) (map ae_id_hash ?es)" by (simp add: strict_sorted_iff)
  moreover have "set ?es = {telemetry_entry i info | i info. hm_get m i = Some info}"
    by (force simp: iter_set [OF assms(1), symmetric] image_iff)
  ultimately show ?thesis by auto
qed

text \<open>
  Identical activity gives identical bytes: the payload does not depend on the iteration order
  of the hash map, so neither do the body and its \<open>ETag\<close>.
\<close>

lemma snapshot_deterministic:
  assumes "iter_ok C" "iter_ok C'"
  shows "snapshot_payload X C started m = snapshot_payload X C' started m"
proof -
  have same: "set (iter C m) = set (iter C' m)"
    using assms by (auto simp: iter_ok_def)
  show ?thesis
  proof (cases "collect_entries X (iter C m)")
    case None
    then have "collect_entries X (iter C' m) = None" using same by (simp add: collect_entries_None)
    with None show ?thesis by (simp add: snapshot_payload_def)
  next
    case (Some es)
    then obtain es' where es': "collect_entries X (iter C' m) = Some es'"
      using same by (metis collect_entries_None not_None_eq)
    have "sort_key ae_id_hash es = sort_key ae_id_hash es'"
    proof (rule sort_key_unique)
      show "set es = set es'"
        using collect_entries_set [OF Some] collect_entries_set [OF es'] same by simp
      show "distinct (map ae_id_hash es)" "distinct (map ae_id_hash es')"
        using assms by (simp_all add: collect_entries_ids [OF Some] collect_entries_ids [OF es'] iter_ok_def)
    qed
    with Some es' show ?thesis by (simp add: snapshot_payload_def split: option.splits)
  qed
qed

section \<open>Revalidation\<close>

definition cache_ok :: "externals \<Rightarrow> AppState \<Rightarrow> bool" where
  "cache_ok X st \<longleftrightarrow> (case attempts_snapshot st of
     None \<Rightarrow> True
   | Some s \<Rightarrow> etag s = CHR 0x22 # sha256_hex X (gzip_body s) @ [CHR 0x22])"

lemma round_up_bounds:
  fixes k r :: nat
  assumes "0 < k"
  shows "r \<le> (r div k + (if 0 < r mod k then 1 else 0)) * k"
    and "(r div k + (if 0 < r mod k then 1 else 0)) * k < r + k"
proof -
  define q t where "q = r div k" and "t = r mod k"
  have r: "r = q * k + t" "t < k" using assms by (simp_all add: q_def t_def)
  then show "r \<le> (r div k + (if 0 < r mod k then 1 else 0)) * k"
    unfolding q_def [symmetric] t_def [symmetric] by (simp add: distrib_right)
  show "(r div k + (if 0 < r mod k then 1 else 0)) * k < r + k"
    using r unfolding q_def [symmetric] t_def [symmetric] by (simp add: distrib_right)
qed

lemma split_comma_plain: "CHR '','' \<notin> set s \<Longrightarrow> split_comma s = [s]"
  by (induction s) auto

lemma trim_plain: "\<forall>c\<in>set s. \<not> is_space c \<Longrightarrow> trim s = s"
proof -
  assume s: "\<forall>c\<in>set s. \<not> is_space c"
  have drop: "dropWhile is_space t = t" if "\<forall>c\<in>set t. \<not> is_space c" for t
    using that by (cases t) auto
  show ?thesis using s drop [of s] drop [of "rev s"] by (simp add: trim_def)
qed

lemma hex_output: "hex_ok X \<Longrightarrow> c \<in> set (sha256_hex X gz) \<Longrightarrow> is_ascii_hexdigit c"
proof -
  assume X: "hex_ok X" and c: "c \<in> set (sha256_hex X gz)"
  have "hex_decode X (sha256_hex X gz) \<noteq> None" using X by (simp add: hex_ok_def sha256_hex_def)
  then have "is_hex (sha256_hex X gz)" using X unfolding hex_ok_def by blast
  with c show ?thesis by (simp add: is_hex_def list_all_iff)
qed

lemma hexdigit_plain: "is_ascii_hexdigit c \<Longrightarrow> c \<noteq> CHR '','' \<and> \<not> is_space c"
proof -
  have "char_code CHR '','' = 44" by (simp add: char_code_def)
  then show "is_ascii_hexdigit c \<Longrightarrow> c \<noteq> CHR '','' \<and> \<not> is_space c"
    by (auto simp: is_ascii_hexdigit_def is_space_def)
qed

lemma own_etag_matches:
  assumes "hex_ok X" "tag = CHR 0x22 # sha256_hex X gz @ [CHR 0x22]"
  shows "not_modified (Some tag) tag"
proof -
  have quote: "\<not> is_space CHR 0x22" by (simp add: is_space_def char_code_def)
  have plain: "\<forall>c\<in>set tag. c \<noteq> CHR '','' \<and> \<not> is_space c"
    using assms hexdigit_plain hex_output [OF assms(1)] quote by auto
  have "split_comma tag = [tag]" "trim tag = tag"
    using plain by (auto intro!: split_comma_plain trim_plain)
  moreover have "strip_weak tag = tag" using assms(2) by (simp add: strip_weak_def)
  ultimately show ?thesis by (simp add: not_modified_def)
qed

lemma take_attempts_sel [simp]:
  "attempts_snapshot (snd (take_attempts_token now st)) = attempts_snapshot st"
  "attempts_snapshot_ttl (snd (take_attempts_token now st)) = attempts_snapshot_ttl st"
  by (simp_all add: take_attempts_token_def split_beta)

lemma refresh_snapshot:
  assumes "refresh X C t joined st = (Some (Inr s), st')"
  shows "attempts_snapshot st' = Some s" "attempts_snapshot_ttl st' = attempts_snapshot_ttl st"
    and "cache_ok X st \<Longrightarrow> cache_ok X st'"
  using assms
  by (auto simp: refresh_def build_snapshot_defs Let_def compress_def cache_ok_def with_map_def
      split: option.splits bool.splits sum.splits prod.splits if_splits)

lemma refresh_fresh:
  "attempts_snapshot st = Some s \<Longrightarrow> at_check t - created_at s < attempts_snapshot_ttl st \<Longrightarrow>
     refresh X C t joined st = (Some (Inr s), st)"
  by (simp add: refresh_def stale_def split: option.splits)

text \<open>
  C36. Revalidation: a client that sends back the \<open>ETag\<close> of a \<open>200\<close> while the snapshot is fresh
  gets a bodyless \<open>304\<close> with the same tag, and its request does not touch the rate-limit map.
\<close>

theorem etag_revalidates:
  assumes "hex_ok X" "cache_ok X st" "get_attempts X C t joined inm st = (Some r, st1)" "status r = OK"
    and "attempts_snapshot st1 = Some s" "at_check t' - created_at s < attempts_snapshot_ttl st1"
    and "fst (take_attempts_token (at_token t') st1)"
  shows "ETag (etag s) \<in> set (headers r) \<and> (\<exists>n. fst (get_attempts X C t' joined' (Some (etag s)) st1) =
      Some \<lparr>status = NOT_MODIFIED, headers = [Cache_Control_Max_Age n, ETag (etag s)], body = Empty\<rparr>) \<and>
    identifier_rate_limit (snd (get_attempts X C t' joined' (Some (etag s)) st1)) = identifier_rate_limit st1"
proof -
  let ?st = "snd (take_attempts_token (at_token t) st)"
  obtain s0 where s0: "refresh X C t joined ?st = (Some (Inr s0), st1)"
    and r: "r = snapshot_response inm s0 (remaining_max_age (at_reply t - created_at s0) (attempts_snapshot_ttl st1))"
    using assms(3,4)
    by (auto simp: get_attempts_def Let_def split_beta refresh_def build_snapshot_defs snapshot_error_response_def
        split: if_splits option.splits sum.splits bool.splits prod.splits)
  have "cache_ok X ?st" using assms(2) by (simp add: cache_ok_def)
  note s1 = refresh_snapshot [OF s0] refresh_snapshot(3) [OF s0 this]
  have s: "s0 = s" using s1(1) assms(5) by simp
  have tag: "not_modified (Some (etag s)) (etag s)"
    using own_etag_matches [OF assms(1)] s1(4) assms(5) by (simp add: cache_ok_def)
  let ?st2 = "snd (take_attempts_token (at_token t') st1)"
  have "refresh X C t' joined' ?st2 = (Some (Inr s), ?st2)"
    using assms(5,6) by (intro refresh_fresh) simp_all
  then have "get_attempts X C t' joined' (Some (etag s)) st1 =
      (Some (snapshot_response (Some (etag s)) s
        (remaining_max_age (at_reply t' - created_at s) (attempts_snapshot_ttl ?st2))), ?st2)"
    using assms(7) by (simp add: get_attempts_def split_beta)
  then show ?thesis
    using r s assms(4) tag
    by (auto simp: snapshot_response_def take_attempts_token_def split_beta split: if_splits)
qed

definition demo_times :: attempts_times where
  "demo_times = \<lparr>at_token = 0, at_check = 0, at_wall = 0, at_built = 0, at_reply = 0\<rparr>"

definition demo_snapshot :: AttemptsSnapshotCache where
  "demo_snapshot = \<lparr>gzip_body = [], etag = [CHR 0x22, CHR 0x22], created_at = 0\<rparr>"

definition demo_cached :: AppState where
  "demo_cached = demo_state\<lparr>attempts_token_bucket := \<lparr>tokens = 19, capacity = 20, refill_per_second = 2, last_refill = 0\<rparr>,
     attempts_snapshot := Some demo_snapshot\<rparr>"

lemma hm_retain_empty: "hm_retain P fmempty = fmempty"
  by (rule hm_eqI) (simp add: hm_simps)

lemma demo_get_attempts:
  "get_attempts reference_externals reference_codec demo_times True None demo_state =
     (Some (snapshot_response None demo_snapshot 60), demo_cached)"
  using f64_round_nat [of 20] f64_round_nat [of 19]
  by (simp add: get_attempts_def take_attempts_token_def try_consume_def demo_state_def demo_times_def
      TokenBucket_new_def Let_def f64_add_def f64_mul_def f64_sub_def refresh_def stale_def build_snapshot_defs
      with_map_def hm_retain_empty snapshot_payload_def reference_codec_def sorted_list_of_fmap_def sorted_list_of_fset.rep_eq
      truncate_to_hour_def reference_externals_def compress_def sha256_hex_def remaining_max_age_def
      demo_snapshot_def demo_cached_def)

theorem etag_revalidates_witness:
  "\<exists>n. fst (get_attempts reference_externals reference_codec demo_times True (Some (etag demo_snapshot)) demo_cached) =
     Some \<lparr>status = NOT_MODIFIED, headers = [Cache_Control_Max_Age n, ETag (etag demo_snapshot)], body = Empty\<rparr>"
proof -
  have "hex_ok reference_externals" using reference_externals_ok by (simp add: externals_ok_def)
  moreover have "fst (take_attempts_token (at_token demo_times) demo_cached)"
    using f64_round_nat [of 19]
    by (simp add: take_attempts_token_def try_consume_def demo_cached_def demo_times_def Let_def f64_add_def f64_mul_def)
  ultimately show ?thesis
    using etag_revalidates [OF _ _ demo_get_attempts, of demo_snapshot demo_times]
    by (simp add: cache_ok_def demo_state_def demo_cached_def demo_times_def demo_snapshot_def
        snapshot_response_def not_modified_def)
qed

text \<open>
  The \<open>max-age\<close> of a snapshot never exceeds the arithmetic of a \<open>u64\<close>, is at least one second,
  does not end before the snapshot does, and ends less than a second after it.
\<close>

lemma max_age_bounds:
  assumes "secs < 2 ^ 64" "elapsed < secs * 10 ^ 9"
  shows "1 \<le> unat (remaining_max_age elapsed (secs * 10 ^ 9)) \<and>
    secs * 10 ^ 9 \<le> elapsed + unat (remaining_max_age elapsed (secs * 10 ^ 9)) * 10 ^ 9 \<and>
    elapsed + unat (remaining_max_age elapsed (secs * 10 ^ 9)) * 10 ^ 9 < secs * 10 ^ 9 + 10 ^ 9"
proof -
  define r where "r = secs * 10 ^ 9 - elapsed"
  define n where "n = r div 10 ^ 9 + (if 0 < r mod 10 ^ 9 then 1 else 0)"
  have r: "0 < r" "r \<le> secs * 10 ^ 9" using assms(2) by (simp_all add: r_def)
  have n: "r \<le> n * 10 ^ 9" "n * 10 ^ 9 < r + 10 ^ 9"
    using round_up_bounds [of "10 ^ 9" r] unfolding n_def by simp_all
  have "1 \<le> n" using n(1) r(1) by (cases n) simp_all
  moreover have "n \<le> secs" using n(2) r(2) by simp
  ultimately have "unat (max (of_nat n) 1 :: u64) = n"
    using assms(1) by (simp add: max_def word_le_nat_alt unat_of_nat)
  moreover have "remaining_max_age elapsed (secs * 10 ^ 9) = max (of_nat n) 1"
    unfolding remaining_max_age_def Let_def r_def [symmetric] n_def by simp
  ultimately have u: "unat (remaining_max_age elapsed (secs * 10 ^ 9)) = n" by simp
  have "secs * 10 ^ 9 = elapsed + r" using assms(2) by (simp add: r_def)
  then show ?thesis using n \<open>1 \<le> n\<close> unfolding u by linarith
qed

end
