(* ===== verification/Info_Handler.thy ===== *)
theory Info_Handler
  imports Scenario
begin

text \<open>
  \<open>get_info\<close> of \<open>src/handlers/info.rs\<close> and the warrant canary of \<open>src/env.rs\<close>: the state of the
  dotenv file and its cache keyed on the file's metadata. The file system and the dotenv parser
  are parameters (\<open>dotenv_fs\<close>). The locale \<open>validated_cache\<close> is the contract of a cache that is
  revalidated by a key; it is interpreted on \<open>canary_file_state_cached\<close>.
\<close>

section \<open>The dotenv file\<close>

datatype CanaryFileState = Value string | Removed | Unavailable

text \<open>
  One instant of the file: \<open>metadata\<close> gives the modification time (\<open>None\<close> where the platform has
  none) and the length, \<open>from_path_iter\<close> the parsed lines, each a pair or a parse error.
\<close>

record dotenv_fs =
  metadata :: "string \<Rightarrow> (int option \<times> u64) option"
  from_path_iter :: "string \<Rightarrow> (string + string \<times> string) list option"

definition UNIX_EPOCH :: int where
  "UNIX_EPOCH = 0"

fun scan_canary :: "(string + string \<times> string) list \<Rightarrow> CanaryFileState" where
  "scan_canary [] = Removed"
| "scan_canary (Inr (key, v) # items) = (if key = ''CANARY'' then Value v else scan_canary items)"
| "scan_canary (Inl _ # items) = Unavailable"

definition canary_file_state :: "dotenv_fs \<Rightarrow> string \<Rightarrow> CanaryFileState" where
  "canary_file_state F path =
     (case from_path_iter F path of
        None \<Rightarrow> Unavailable
      | Some items \<Rightarrow> scan_canary items)"

definition store_canary ::
  "int \<Rightarrow> u64 \<Rightarrow> CanaryFileState \<Rightarrow> CachedCanary option \<Rightarrow> CachedCanary option" where
  "store_canary modified n state cache =
     (case state of
        Value v \<Rightarrow> Some \<lparr>cc_modified = modified, cc_len = n, cc_value = Some v\<rparr>
      | Removed \<Rightarrow> Some \<lparr>cc_modified = modified, cc_len = n, cc_value = None\<rparr>
      | Unavailable \<Rightarrow> cache)"

definition cached_state :: "CachedCanary \<Rightarrow> CanaryFileState" where
  "cached_state cached = (case cc_value cached of Some v \<Rightarrow> Value v | None \<Rightarrow> Removed)"

definition canary_file_state_cached ::
  "dotenv_fs \<Rightarrow> string \<Rightarrow> CachedCanary option \<Rightarrow> CanaryFileState \<times> CachedCanary option" where
  "canary_file_state_cached F path cache =
     (case metadata F path of
        None \<Rightarrow> (Unavailable, cache)
      | Some (m, n) \<Rightarrow>
          (let modified = (case m of Some t \<Rightarrow> t | None \<Rightarrow> UNIX_EPOCH);
               miss = (let state = canary_file_state F path in (state, store_canary modified n state cache))
           in case cache of
                None \<Rightarrow> miss
              | Some cached \<Rightarrow>
                  if cc_modified cached = modified \<and> cc_len cached = n
                  then (cached_state cached, cache) else miss))"

section \<open>The handler\<close>

definition live_canary :: "dotenv_fs \<Rightarrow> AppState \<Rightarrow> string \<times> AppState" where
  "live_canary F st =
     (if canary_from_env st then (canary st, st)
      else
        (let (state, cache) = canary_file_state_cached F (canary_path st) (canary_cache st)
         in (case state of Value v \<Rightarrow> v | Removed \<Rightarrow> [] | Unavailable \<Rightarrow> canary st,
             st\<lparr>canary_cache := cache\<rparr>)))"

text \<open>\<open>None\<close> is the panic of \<open>truncate_to_hour\<close>; the cache is written before it.\<close>

definition get_info :: "externals \<Rightarrow> dotenv_fs \<Rightarrow> AppState \<Rightarrow> Response option \<times> AppState" where
  "get_info X F st =
     (let (c, st') = live_canary F st
      in (map_option
            (\<lambda>started. plain_response OK (InfoBody
               \<lparr>info_secret_max_length = secret_max_length st, info_canary = c,
                info_rate_limit_cooldown = word_of_int (cooldown_minutes st),
                info_rate_limit_max_attempts = rate_limit_max_attempts st,
                info_rate_limit_max_failed_attempts = rate_limit_max_attempts st,
                info_attempts_collection_started_at = started,
                info_max_attempt_identifiers = rate_limit_max_identifiers st\<rparr>))
            (truncate_to_hour X (attempts_collection_started_at st)),
          st'))"

section \<open>Caches revalidated by a key\<close>

text \<open>
  \<open>key\<close> reads the validator of the source (\<open>None\<close> when there is none), \<open>read\<close> the value, \<open>held\<close>
  the keyed value in a cache. A call answers from the cache exactly when the key matches, and
  stores what it read when that may be kept.
\<close>

locale validated_cache =
  fixes key :: "'s \<Rightarrow> 'k option"
    and read :: "'s \<Rightarrow> 'v"
    and unavailable :: 'v
    and kept :: "'c \<Rightarrow> ('k \<times> 'v) option"
    and call :: "'s \<Rightarrow> 'c \<Rightarrow> 'v \<times> 'c"
  assumes call_no_key: "key s = None \<Longrightarrow> call s c = (unavailable, c)"
    and call_hit: "key s = Some k \<Longrightarrow> kept c = Some (k, v) \<Longrightarrow> call s c = (v, c)"
    and call_miss: "key s = Some k \<Longrightarrow> (\<And>v. kept c \<noteq> Some (k, v)) \<Longrightarrow> fst (call s c) = read s"
    and call_keeps: "key s = Some k \<Longrightarrow> (\<And>v. kept c \<noteq> Some (k, v)) \<Longrightarrow>
      kept (snd (call s c)) = (if read s = unavailable then kept c else Some (k, read s))"
begin

text \<open>The cache holds what the source has, if the source still has the key.\<close>

definition coherent :: "'s \<Rightarrow> 'c \<Rightarrow> bool" where
  "coherent s c \<longleftrightarrow> (\<forall>k v. key s = Some k \<and> kept c = Some (k, v) \<longrightarrow> v = read s)"

definition direct :: "'s \<Rightarrow> 'v" where
  "direct s = (if key s = None then unavailable else read s)"

lemma call_is_direct: "coherent s c \<Longrightarrow> fst (call s c) = direct s"
  by (cases "key s") (auto simp: direct_def coherent_def call_no_key call_hit intro: call_miss
      dest: call_hit, metis call_hit call_miss fst_conv)

lemma call_coherent: "coherent s c \<Longrightarrow> coherent s (snd (call s c))"
proof (cases "key s")
  case None
  then show ?thesis by (simp add: coherent_def)
next
  case (Some k)
  assume c: "coherent s c"
  show ?thesis
  proof (cases "\<exists>v. kept c = Some (k, v)")
    case True
    then show ?thesis using c Some call_hit [OF Some] by auto
  next
    case False
    then show ?thesis using c Some call_keeps [OF Some, of c] by (auto simp: coherent_def split: if_splits)
  qed
qed

end

definition canary_key :: "dotenv_fs \<times> string \<Rightarrow> (int \<times> u64) option" where
  "canary_key s = map_option (\<lambda>(m, n). (case m of Some t \<Rightarrow> t | None \<Rightarrow> UNIX_EPOCH, n)) (metadata (fst s) (snd s))"

definition canary_read :: "dotenv_fs \<times> string \<Rightarrow> CanaryFileState" where
  "canary_read s = canary_file_state (fst s) (snd s)"

definition canary_kept :: "CachedCanary option \<Rightarrow> ((int \<times> u64) \<times> CanaryFileState) option" where
  "canary_kept c = map_option (\<lambda>cached. ((cc_modified cached, cc_len cached), cached_state cached)) c"

definition canary_call :: "dotenv_fs \<times> string \<Rightarrow> CachedCanary option \<Rightarrow> CanaryFileState \<times> CachedCanary option" where
  "canary_call s c = canary_file_state_cached (fst s) (snd s) c"

lemma store_canary_kept:
  "canary_kept (store_canary t n state c) = (if state = Unavailable then canary_kept c else Some ((t, n), state))"
  by (cases state) (simp_all add: canary_kept_def store_canary_def cached_state_def)

interpretation canary: validated_cache canary_key canary_read Unavailable canary_kept canary_call
proof unfold_locales
  fix s c assume "canary_key s = None"
  then show "canary_call s c = (Unavailable, c)"
    by (simp add: canary_key_def canary_call_def canary_file_state_cached_def)
next
  fix s c k v assume "canary_key s = Some k" "canary_kept c = Some (k, v)"
  then show "canary_call s c = (v, c)"
    by (auto simp: canary_key_def canary_kept_def canary_call_def canary_file_state_cached_def Let_def)
next
  fix s k and c :: "CachedCanary option"
  assume k: "canary_key s = Some k" and miss: "\<And>v. canary_kept c \<noteq> Some (k, v)"
  from miss have no: "\<nexists>v. canary_kept c = Some (k, v)" by blast
  have call: "canary_call s c = (canary_read s, store_canary (fst k) (snd k) (canary_read s) c)"
    using k no
    by (auto simp: canary_key_def canary_kept_def canary_call_def canary_read_def
        canary_file_state_cached_def Let_def split: option.splits)
  then show "fst (canary_call s c) = canary_read s" by simp
  show "canary_kept (snd (canary_call s c)) = (if canary_read s = Unavailable then canary_kept c else Some (k, canary_read s))"
    by (simp add: call store_canary_kept)
qed

section \<open>Properties of the canary\<close>

text \<open>The cached entry, if its key is the file's, is what the file says.\<close>

definition canary_coherent :: "dotenv_fs \<Rightarrow> string \<Rightarrow> CachedCanary option \<Rightarrow> bool" where
  "canary_coherent F path cache \<longleftrightarrow>
     (case (cache, canary_key (F, path)) of
        (Some cached, Some k) \<Rightarrow>
          (cc_modified cached, cc_len cached) = k \<longrightarrow> cached_state cached = canary_file_state F path
      | _ \<Rightarrow> True)"

lemma canary_coherent_iff: "canary.coherent (F, path) cache = canary_coherent F path cache"
  by (cases cache; cases "canary_key (F, path)")
    (auto simp: canary.coherent_def canary_coherent_def canary_kept_def canary_read_def)

text \<open>
  C37. The cache is invisible: as long as the file's modification time and length identify what it
  was read as, the cached reading of the canary equals a direct reading of the file (\<open>Unavailable\<close>
  when the file has no metadata), and the cache stays coherent.
\<close>

theorem canary_cache_invisible:
  assumes "canary_coherent F path cache"
  shows "fst (canary_file_state_cached F path cache) =
      (if metadata F path = None then Unavailable else canary_file_state F path) \<and>
    canary_coherent F path (snd (canary_file_state_cached F path cache))"
  using canary.call_is_direct [OF assms [folded canary_coherent_iff]] canary.call_coherent [OF assms [folded canary_coherent_iff]]
  by (simp add: canary_coherent_iff canary_call_def canary.direct_def canary_key_def canary_read_def)


definition demo_fs :: dotenv_fs where
  "demo_fs = \<lparr>metadata = (\<lambda>_. Some (Some 7, 20)),
     from_path_iter = (\<lambda>_. Some [Inr (''PORT'', ''1''), Inr (''CANARY'', ''alive'')])\<rparr>"

lemma demo_fs_coherent: "canary_coherent demo_fs path None"
  by (simp add: canary_coherent_def)

theorem canary_cache_invisible_witness:
  "fst (canary_file_state_cached demo_fs ''.env'' None) = Value ''alive''"
  using canary_cache_invisible [OF demo_fs_coherent, of "''.env''"]
  by (simp add: demo_fs_def canary_file_state_def)


end
