(* ===== verification/Server.thy ===== *)
theory Server
  imports Attempts_Handler Info_Handler System
begin

text \<open>
  The running server: the machine of theory \<open>System\<close> for lookups and stores together with everything
  else that runs in the process. Polls of \<open>/attempts\<close> share one \<open>tokio\<close> mutex that is held across the
  rebuild of the snapshot; requests for \<open>/info\<close> read the canary; the sweeper task of
  \<open>src/rate_limit.rs\<close> waits for its timer and then for the lock of the map; \<open>shutdown_signal\<close> of
  \<open>src/main.rs\<close> stops the arrivals and \<open>main\<close> returns when the last handler is done.
\<close>

section \<open>State\<close>

text \<open>
  A poll holds the lock of the snapshot from \<open>Poll_Retaining\<close> (it has read the wall clock and waits for
  the lock of the map) over \<open>Poll_Compressing\<close> (the blocking task runs) to \<open>Poll_Joined\<close>.
\<close>

datatype poll =
    Poll_Received "string option"
  | Poll_Waiting "string option"
  | Poll_Retaining "string option" DateTime
  | Poll_Compressing "string option" AttemptsSnapshot
  | Poll_Joined "string option" "Response + AttemptsSnapshotCache"
  | Info_Received
  | Poll_Done Response
  | Poll_Panicked
  | Poll_Left

text \<open>The task of \<open>spawn_sweeper\<close> at \<open>interval.tick().await\<close>, or at the lock with the time it read.\<close>

datatype sweeper = Sleeping | Locking DateTime

text \<open>\<open>Draining\<close>: a signal has arrived. \<open>Stopped\<close>: \<open>axum::serve\<close> has returned.\<close>

datatype stage = Serving | Draining | Stopped

datatype signal = SIGINT | SIGTERM

text \<open>
  \<open>collected\<close> and \<open>builds\<close> are histories, latest first: every payload collected from the map with the
  state it was collected in, and every snapshot installed in the cache.
\<close>

record 'db Server =
  core :: "'db System"
  polls :: "(nat, poll) hash_map"
  snapshot_holder :: "nat option"
  collected :: "(AttemptsSnapshot \<times> 'db System) list"
  builds :: "AttemptsSnapshotCache list"
  sweep_task :: sweeper
  sweep_due :: instant
  stage :: stage

text \<open>
  \<open>Core\<close> is an event of a lookup or a store. \<open>Pass\<close> lets time pass. The argument of \<open>Poll_Compressed\<close>
  says whether the blocking task returned, that of \<open>Sweeper_Wake\<close> is the next deadline of the timer.
\<close>

datatype server_event =
    Core event
  | Pass nat
  | Poll_Arrive nat "string option"
  | Info_Arrive nat
  | Poll_Token nat
  | Poll_Lock nat
  | Poll_Collect nat
  | Poll_Compressed nat bool
  | Poll_Reply nat
  | Poll_Cancel nat
  | Info_Answer nat dotenv_fs
  | Sweeper_Wake instant
  | Sweeper_Run
  | Signal signal
  | Stop

section \<open>Requests\<close>

definition set_poll :: "nat \<Rightarrow> poll \<Rightarrow> 'db Server \<Rightarrow> 'db Server" where
  "set_poll j p s = s\<lparr>polls := hm_insert j p (polls s)\<rparr>"

definition memory :: "'db Server \<Rightarrow> AppState" where
  "memory s = app (core s)"

definition set_memory :: "AppState \<Rightarrow> 'db Server \<Rightarrow> 'db Server" where
  "set_memory st s = s\<lparr>core := (core s)\<lparr>app := st\<rparr>\<rparr>"

text \<open>
  The events of theory \<open>System\<close>, without those this theory refines: time, the sweep and the retain
  of a snapshot. Once a signal has arrived no request is accepted.
\<close>

fun is_arrival :: "event \<Rightarrow> bool" where
  "is_arrival (Arrive_Fetch _ _ _) = True"
| "is_arrival (Arrive_Store _ _) = True"
| "is_arrival _ = False"

fun is_background :: "event \<Rightarrow> bool" where
  "is_background (Tick _) = True"
| "is_background (Sweep _) = True"
| "is_background (Snapshot_Retain _) = True"
| "is_background _ = False"

definition step_core :: "externals \<Rightarrow> 'db engine \<Rightarrow> event \<Rightarrow> 'db Server \<Rightarrow> 'db Server option" where
  "step_core X E e s =
     (if is_background e \<or> is_arrival e \<and> stage s \<noteq> Serving then None
      else map_option (\<lambda>c. s\<lparr>core := c\<rparr>) (system_step X E e (core s)))"

definition step_poll_arrive :: "nat \<Rightarrow> poll \<Rightarrow> 'db Server \<Rightarrow> 'db Server option" where
  "step_poll_arrive j p s =
     (if stage s = Serving \<and> hm_get (polls s) j = None then Some (set_poll j p s) else None)"

definition step_poll_token :: "nat \<Rightarrow> 'db Server \<Rightarrow> 'db Server option" where
  "step_poll_token j s =
     (case hm_get (polls s) j of
        Some (Poll_Received if_none_match) \<Rightarrow>
          (let (ok, st) = take_attempts_token (mono (core s)) (memory s)
           in Some (set_poll j (if ok then Poll_Waiting if_none_match else Poll_Done attempts_overload_response)
                (set_memory st s)))
      | _ \<Rightarrow> None)"

text \<open>The answer from a snapshot, computed while the lock is held.\<close>

definition poll_answer :: "string option \<Rightarrow> AttemptsSnapshotCache \<Rightarrow> instant \<Rightarrow> nat \<Rightarrow> poll" where
  "poll_answer if_none_match snapshot now ttl =
     Poll_Done (snapshot_response if_none_match snapshot (remaining_max_age (now - created_at snapshot) ttl))"

text \<open>The lock is granted: a fresh snapshot is served at once, a stale one is rebuilt under the lock.\<close>

definition step_poll_lock :: "nat \<Rightarrow> 'db Server \<Rightarrow> 'db Server option" where
  "step_poll_lock j s =
     (case (hm_get (polls s) j, snapshot_holder s) of
        (Some (Poll_Waiting if_none_match), None) \<Rightarrow>
          (let st = memory s; now = mono (core s)
           in case (attempts_snapshot st, stale (attempts_snapshot st) now (attempts_snapshot_ttl st)) of
                (Some snapshot, False) \<Rightarrow>
                  Some (set_poll j (poll_answer if_none_match snapshot now (attempts_snapshot_ttl st)) s)
              | _ \<Rightarrow>
                  Some (set_poll j (Poll_Retaining if_none_match (wall (core s))) (s\<lparr>snapshot_holder := Some j\<rparr>)))
      | _ \<Rightarrow> None)"

definition step_poll_collect :: "externals \<Rightarrow> snapshot_codec \<Rightarrow> nat \<Rightarrow> 'db Server \<Rightarrow> 'db Server option" where
  "step_poll_collect X C j s =
     (case hm_get (polls s) j of
        Some (Poll_Retaining if_none_match now) \<Rightarrow>
          (let (r, st) = collect_snapshot X C now (memory s); s' = set_memory st s
           in Some (case r of
                None \<Rightarrow> set_poll j Poll_Panicked (s'\<lparr>snapshot_holder := None\<rparr>)
              | Some payload \<Rightarrow>
                  set_poll j (Poll_Compressing if_none_match payload)
                    (s'\<lparr>collected := (payload, core s') # collected s\<rparr>)))
      | _ \<Rightarrow> None)"

definition step_poll_compressed ::
  "externals \<Rightarrow> snapshot_codec \<Rightarrow> nat \<Rightarrow> bool \<Rightarrow> 'db Server \<Rightarrow> 'db Server option" where
  "step_poll_compressed X C j joined s =
     (case hm_get (polls s) j of
        Some (Poll_Compressing if_none_match payload) \<Rightarrow>
          Some (set_poll j (Poll_Joined if_none_match (finish_snapshot X C (mono (core s)) joined payload)) s)
      | _ \<Rightarrow> None)"

definition step_poll_reply :: "nat \<Rightarrow> 'db Server \<Rightarrow> 'db Server option" where
  "step_poll_reply j s =
     (case hm_get (polls s) j of
        Some (Poll_Joined if_none_match r) \<Rightarrow>
          (case r of
             Inl response \<Rightarrow> Some (set_poll j (Poll_Done response) (s\<lparr>snapshot_holder := None\<rparr>))
           | Inr snapshot \<Rightarrow>
               Some (set_poll j (poll_answer if_none_match snapshot (mono (core s)) (attempts_snapshot_ttl (memory s)))
                 (set_memory ((memory s)\<lparr>attempts_snapshot := Some snapshot\<rparr>)
                   (s\<lparr>snapshot_holder := None, builds := snapshot # builds s\<rparr>))))
      | _ \<Rightarrow> None)"

text \<open>A handler dropped at an \<open>await\<close> drops the guard of the lock with it; the blocking task goes on unheard.\<close>

definition step_poll_cancel :: "nat \<Rightarrow> 'db Server \<Rightarrow> 'db Server option" where
  "step_poll_cancel j s =
     (case hm_get (polls s) j of
        Some (Poll_Received _) \<Rightarrow> Some (set_poll j Poll_Left s)
      | Some (Poll_Waiting _) \<Rightarrow> Some (set_poll j Poll_Left s)
      | Some (Poll_Retaining _ _) \<Rightarrow> Some (set_poll j Poll_Left (s\<lparr>snapshot_holder := None\<rparr>))
      | Some (Poll_Compressing _ _) \<Rightarrow> Some (set_poll j Poll_Left (s\<lparr>snapshot_holder := None\<rparr>))
      | Some (Poll_Joined _ _) \<Rightarrow> Some (set_poll j Poll_Left (s\<lparr>snapshot_holder := None\<rparr>))
      | Some Info_Received \<Rightarrow> Some (set_poll j Poll_Left s)
      | _ \<Rightarrow> None)"

definition step_info_answer :: "externals \<Rightarrow> nat \<Rightarrow> dotenv_fs \<Rightarrow> 'db Server \<Rightarrow> 'db Server option" where
  "step_info_answer X j F s =
     (case hm_get (polls s) j of
        Some Info_Received \<Rightarrow>
          (let (r, st) = get_info X F (memory s)
           in Some (set_poll j (case r of None \<Rightarrow> Poll_Panicked | Some response \<Rightarrow> Poll_Done response)
                (set_memory st s)))
      | _ \<Rightarrow> None)"

section \<open>The sweeper\<close>

definition SWEEP_INTERVAL :: nat where
  "SWEEP_INTERVAL = 600 * 10 ^ 9"

text \<open>
  The timer fires at its deadline and sets a next one at most an interval later (\<open>interval\<close> of
  \<open>tokio\<close>, whatever it does about missed ticks); the sweep then reads the clock and takes the lock.
\<close>

definition step_sweeper_wake :: "instant \<Rightarrow> 'db Server \<Rightarrow> 'db Server option" where
  "step_sweeper_wake next_due s =
     (if sweep_task s = Sleeping \<and> sweep_due s \<le> mono (core s) \<and> next_due \<le> mono (core s) + SWEEP_INTERVAL
      then Some (s\<lparr>sweep_task := Locking (wall (core s)), sweep_due := next_due\<rparr>) else None)"

definition step_sweeper_run :: "'db Server \<Rightarrow> 'db Server option" where
  "step_sweeper_run s =
     (case sweep_task s of
        Locking now \<Rightarrow> Some (set_memory (sweep_state now (memory s)) (s\<lparr>sweep_task := Sleeping\<rparr>))
      | Sleeping \<Rightarrow> None)"

text \<open>
  Time passes. \<open>latency\<close> bounds how long the scheduler leaves the sweeper waiting once its timer has
  fired, and how long it waits for the lock of the map.
\<close>

definition step_pass :: "nat \<Rightarrow> nat \<Rightarrow> 'db Server \<Rightarrow> 'db Server option" where
  "step_pass latency n s =
     (if (case sweep_task s of
            Sleeping \<Rightarrow> mono (core s) + n \<le> sweep_due s + latency
          | Locking now \<Rightarrow> wall (core s) + int n \<le> now + int latency)
      then map_option (\<lambda>c. s\<lparr>core := c\<rparr>) (step_tick n (core s)) else None)"

section \<open>Shutdown\<close>

text \<open>Both branches of \<open>select!\<close> in \<open>shutdown_signal\<close> end it.\<close>

definition step_signal :: "signal \<Rightarrow> 'db Server \<Rightarrow> 'db Server option" where
  "step_signal sig s = (if stage s = Serving then Some (s\<lparr>stage := Draining\<rparr>) else None)"

text \<open>The requests whose handler still runs; a detached task alone does not keep the server alive.\<close>

fun attached :: "phase \<Rightarrow> bool" where
  "attached (Querying _ b) = b"
| "attached (Finalizing _ _ b) = b"
| "attached (Store_Writing _ b) = b"
| "attached (Deferred_Removal _) = False"
| "attached (Responded _) = False"
| "attached Panicked = False"
| "attached Gone = False"
| "attached _ = True"

fun poll_attached :: "poll \<Rightarrow> bool" where
  "poll_attached (Poll_Done _) = False"
| "poll_attached Poll_Panicked = False"
| "poll_attached Poll_Left = False"
| "poll_attached _ = True"

definition drained :: "'db Server \<Rightarrow> bool" where
  "drained s \<longleftrightarrow> fmpred (\<lambda>_ p. \<not> attached p) (jobs (core s)) \<and> fmpred (\<lambda>_ p. \<not> poll_attached p) (polls s)"

definition step_stop :: "'db Server \<Rightarrow> 'db Server option" where
  "step_stop s = (if stage s = Draining \<and> drained s then Some (s\<lparr>stage := Stopped\<rparr>) else None)"

section \<open>The machine\<close>

fun live_step ::
  "externals \<Rightarrow> snapshot_codec \<Rightarrow> 'db engine \<Rightarrow> nat \<Rightarrow> server_event \<Rightarrow> 'db Server \<Rightarrow> 'db Server option" where
  "live_step X C E latency (Core e) s = step_core X E e s"
| "live_step X C E latency (Pass n) s = step_pass latency n s"
| "live_step X C E latency (Poll_Arrive j if_none_match) s = step_poll_arrive j (Poll_Received if_none_match) s"
| "live_step X C E latency (Info_Arrive j) s = step_poll_arrive j Info_Received s"
| "live_step X C E latency (Poll_Token j) s = step_poll_token j s"
| "live_step X C E latency (Poll_Lock j) s = step_poll_lock j s"
| "live_step X C E latency (Poll_Collect j) s = step_poll_collect X C j s"
| "live_step X C E latency (Poll_Compressed j joined) s = step_poll_compressed X C j joined s"
| "live_step X C E latency (Poll_Reply j) s = step_poll_reply j s"
| "live_step X C E latency (Poll_Cancel j) s = step_poll_cancel j s"
| "live_step X C E latency (Info_Answer j F) s = step_info_answer X j F s"
| "live_step X C E latency (Sweeper_Wake next_due) s = step_sweeper_wake next_due s"
| "live_step X C E latency Sweeper_Run s = step_sweeper_run s"
| "live_step X C E latency (Signal sig) s = step_signal sig s"
| "live_step X C E latency Stop s = step_stop s"

text \<open>The process is gone once \<open>main\<close> has returned.\<close>

definition server_step ::
  "externals \<Rightarrow> snapshot_codec \<Rightarrow> 'db engine \<Rightarrow> nat \<Rightarrow> server_event \<Rightarrow> 'db Server \<Rightarrow> 'db Server option" where
  "server_step X C E latency e s = (if stage s = Stopped then None else live_step X C E latency e s)"

abbreviation server_run ::
  "externals \<Rightarrow> snapshot_codec \<Rightarrow> 'db engine \<Rightarrow> nat \<Rightarrow> server_event list \<Rightarrow> 'db Server \<Rightarrow> 'db Server option" where
  "server_run X C E latency \<equiv> guarded_run (server_step X C E latency)"

abbreviation server_reachable ::
  "externals \<Rightarrow> snapshot_codec \<Rightarrow> 'db engine \<Rightarrow> nat \<Rightarrow> 'db Server \<Rightarrow> 'db Server \<Rightarrow> bool" where
  "server_reachable X C E latency \<equiv> reach (server_step X C E latency)"

text \<open>The server as \<open>main\<close> starts it: no snapshot yet, and a first tick of the sweeper due at once.\<close>

definition server_boot :: "AppState \<Rightarrow> DateTime \<Rightarrow> instant \<Rightarrow> 'db \<Rightarrow> 'db Server" where
  "server_boot st w m d =
     \<lparr>core = boot (st\<lparr>attempts_snapshot := None\<rparr>) w m d, polls = fmempty, snapshot_holder = None,
      collected = [], builds = [], sweep_task = Sleeping, sweep_due = m, stage = Serving\<rparr>"

lemma set_poll_sel [simp]:
  "core (set_poll j p s) = core s" "polls (set_poll j p s) = hm_insert j p (polls s)"
  "snapshot_holder (set_poll j p s) = snapshot_holder s" "collected (set_poll j p s) = collected s"
  "builds (set_poll j p s) = builds s" "sweep_task (set_poll j p s) = sweep_task s"
  "sweep_due (set_poll j p s) = sweep_due s" "stage (set_poll j p s) = stage s"
  by (simp_all add: set_poll_def)

lemma set_memory_sel [simp]:
  "core (set_memory st s) = (core s)\<lparr>app := st\<rparr>" "polls (set_memory st s) = polls s"
  "snapshot_holder (set_memory st s) = snapshot_holder s" "collected (set_memory st s) = collected s"
  "builds (set_memory st s) = builds s" "sweep_task (set_memory st s) = sweep_task s"
  "sweep_due (set_memory st s) = sweep_due s" "stage (set_memory st s) = stage s"
  by (simp_all add: set_memory_def)

lemma memory_simps [simp]:
  "memory (set_poll j p s) = memory s" "memory (set_memory st s) = st"
  "memory (s\<lparr>snapshot_holder := h\<rparr>) = memory s" "memory (s\<lparr>collected := c\<rparr>) = memory s"
  "memory (s\<lparr>builds := b\<rparr>) = memory s" "memory (s\<lparr>sweep_task := w\<rparr>) = memory s"
  "memory (s\<lparr>sweep_due := n\<rparr>) = memory s" "memory (s\<lparr>stage := g\<rparr>) = memory s"
  by (simp_all add: memory_def set_poll_def set_memory_def)

lemma server_boot_sel [simp]:
  "core (server_boot st w m d) = boot (st\<lparr>attempts_snapshot := None\<rparr>) w m d"
  "polls (server_boot st w m d) = fmempty" "snapshot_holder (server_boot st w m d) = None"
  "collected (server_boot st w m d) = []" "builds (server_boot st w m d) = []"
  "sweep_task (server_boot st w m d) = Sleeping" "sweep_due (server_boot st w m d) = m"
  "stage (server_boot st w m d) = Serving"
  by (simp_all add: server_boot_def)

lemmas server_step_defs =
  step_core_def step_pass_def step_poll_arrive_def step_poll_token_def step_poll_lock_def
  step_poll_collect_def step_poll_compressed_def step_poll_reply_def step_poll_cancel_def
  step_info_answer_def step_sweeper_wake_def step_sweeper_run_def step_signal_def step_stop_def

end
