(* ===== verification/Server_Refinement.thy ===== *)
theory Server_Refinement
  imports Server System_Safety
begin

text \<open>
  The running server refines the machine of theory \<open>System\<close>: once the cells that only \<open>/attempts\<close> and
  \<open>/info\<close> use are forgotten, every step of the server is a step of that machine or none at all. Every
  invariant of lookups and stores therefore holds in the server with its telemetry, its sweeper and
  its shutdown.
\<close>

section \<open>The abstraction\<close>

definition forget :: "AppState \<Rightarrow> AppState" where
  "forget st = st\<lparr>canary_cache := None, attempts_snapshot := None,
     attempts_token_bucket := \<lparr>tokens = 0, capacity = 0, refill_per_second = 0, last_refill = 0\<rparr>\<rparr>"

definition erase :: "'db System \<Rightarrow> 'db System" where
  "erase s = s\<lparr>app := forget (app s)\<rparr>"

lemma erase_sel [simp]:
  "wall (erase s) = wall s" "mono (erase s) = mono s" "app (erase s) = forget (app s)"
  "db (erase s) = db s" "jobs (erase s) = jobs s" "answers (erase s) = answers s"
  by (simp_all add: erase_def)

lemma forget_sel [simp]:
  "rate_limit_cooldown (forget st) = rate_limit_cooldown st"
  "identifier_rate_limit (forget st) = identifier_rate_limit st"
  "secret_max_length (forget st) = secret_max_length st"
  "rate_limit_max_attempts (forget st) = rate_limit_max_attempts st"
  "rate_limit_max_identifiers (forget st) = rate_limit_max_identifiers st"
  "store_token_bucket (forget st) = store_token_bucket st"
  "lookup_token_bucket (forget st) = lookup_token_bucket st"
  "database_semaphore (forget st) = database_semaphore st"
  by (simp_all add: forget_def)

lemma forget_side_cells [simp]:
  "forget (st\<lparr>canary_cache := c\<rparr>) = forget st"
  "forget (st\<lparr>attempts_snapshot := x\<rparr>) = forget st"
  "forget (st\<lparr>attempts_token_bucket := b\<rparr>) = forget st"
  by (simp_all add: forget_def)

lemma with_map_forget [simp]: "with_map f (forget st) = forget (with_map f st)"
  by (simp add: with_map_def forget_def)

lemma permit_forget [simp]:
  "acquire_permit (forget st) = forget (acquire_permit st)"
  "release_permit (forget st) = forget (release_permit st)"
  by (simp_all add: acquire_permit_def release_permit_def forget_def)

lemma ticket_forget [simp]:
  "release_ticket tk (forget st) = forget (release_ticket tk st)"
  "finalize_ticket tk r (forget st) = forget (finalize_ticket tk r st)"
  by (simp_all add: release_ticket_def finalize_ticket_def)

lemma sweep_forget [simp]: "sweep_state now (forget st) = forget (sweep_state now st)"
  by (simp add: sweep_state_def)

lemma admit_forget:
  "admit_state (forget st) i c now = apsnd forget (admit_state st i c now)"
  by (simp add: admit_state_def split_beta) (simp add: forget_def)

lemma lookup_entry_forget:
  "fetch_entry_step X request now (forget st) = apsnd forget (fetch_entry_step X request now st)"
  by (simp add: fetch_entry_step_def take_lookup_token_def split_beta Let_def split: sum.splits option.splits)
    (simp add: forget_def)

lemma store_entry_forget:
  "store_entry_step X request now created (forget st) = apsnd forget (store_entry_step X request now created st)"
  by (simp add: store_entry_step_def store_validate_def take_store_token_def split_beta Let_def split: sum.splits)
    (simp add: forget_def)

lemma answer_forget [simp]: "fetch_answer (forget st) tk r = fetch_answer st tk r"
proof -
  have "cooldown_minutes (forget st) = cooldown_minutes st" by (simp add: cooldown_minutes_def)
  then show ?thesis by (simp add: fetch_answer_def split: sum.splits option.splits FinalizerError.splits)
qed

lemma erase_updates [simp]:
  "erase (set_job j p s) = set_job j p (erase s)"
  "erase (s\<lparr>app := st\<rparr>) = (erase s)\<lparr>app := forget st\<rparr>"
  "erase (s\<lparr>wall := w\<rparr>) = (erase s)\<lparr>wall := w\<rparr>"
  "erase (s\<lparr>mono := m\<rparr>) = (erase s)\<lparr>mono := m\<rparr>"
  "erase (s\<lparr>db := d\<rparr>) = (erase s)\<lparr>db := d\<rparr>"
  "erase (s\<lparr>answers := h\<rparr>) = (erase s)\<lparr>answers := h\<rparr>"
  by (simp_all add: erase_def set_job_def)

text \<open>No step of a lookup or a store reads the forgotten cells.\<close>

lemma system_step_erase: "system_step X E e (erase s) = map_option erase (system_step X E e s)"
proof (cases e)
  case (Lookup_Token j)
  then show ?thesis
    by (simp add: step_lookup_token_def lookup_entry_forget split_beta
        split: option.splits phase.splits fetch_entry.splits)
next
  case (Admit j)
  then show ?thesis
    by (simp add: step_admit_def admit_forget split_beta split: option.splits phase.splits)
next
  case (Store_Token j t)
  then show ?thesis
    by (simp add: step_store_token_def store_entry_forget split_beta split: option.splits phase.splits sum.splits)
next
  case (Cancel j b)
  then show ?thesis
    by (simp add: step_cancel_def drop_guard_def split: option.splits phase.splits bool.splits)
qed (simp_all add: step_tick_def step_arrive_def step_permit_def step_permit_timed_out_def
    step_timeout_cleanup_def step_run_deferred_def step_query_def step_finalize_def step_answer_def
    step_store_permit_def step_store_permit_timed_out_def step_store_write_def step_store_answer_def
    step_sweep_def split_beta split: option.splits phase.splits)

section \<open>Times read before a lock\<close>

text \<open>What a task read from the wall clock before it waited for the map is not in the future.\<close>

definition poll_clock_ok :: "DateTime \<Rightarrow> poll \<Rightarrow> bool" where
  "poll_clock_ok w p \<longleftrightarrow> (case p of Poll_Retaining _ now \<Rightarrow> now \<le> w | _ \<Rightarrow> True)"

definition clocks_ok :: "'db Server \<Rightarrow> bool" where
  "clocks_ok s \<longleftrightarrow>
     (case sweep_task s of Sleeping \<Rightarrow> True | Locking now \<Rightarrow> now \<le> wall (core s)) \<and>
     (\<forall>j p. hm_get (polls s) j = Some p \<longrightarrow> poll_clock_ok (wall (core s)) p)"

lemma server_stepD:
  "server_step X C E L e s = Some t \<Longrightarrow> stage s \<noteq> Stopped \<and> live_step X C E L e s = Some t"
  by (simp add: server_step_def split: if_splits)

lemma step_core_app:
  assumes "step_core X E e s = Some t"
  obtains c where "t = s\<lparr>core := c\<rparr>" "system_step X E e (core s) = Some c" "\<not> is_background e"
  using assms by (auto simp: step_core_def split: if_splits)

text \<open>The events of a lookup or a store take no time.\<close>

lemma core_step_clocks:
  "system_step X E e s = Some t \<Longrightarrow> \<not> is_background e \<Longrightarrow> wall t = wall s \<and> mono t = mono s"
  by (cases e)
    (auto simp: set_job_def step_arrive_def step_lookup_token_def step_admit_def step_permit_def step_permit_timed_out_def
      step_timeout_cleanup_def step_cancel_def drop_guard_def step_run_deferred_def step_query_def
      step_finalize_def step_answer_def step_store_token_def step_store_permit_def
      step_store_permit_timed_out_def step_store_write_def step_store_answer_def Let_def split_beta
      split: option.splits phase.splits bool.splits if_splits)

lemma step_clocks_mono:
  assumes "server_step X C E L e s = Some t"
  shows "wall (core s) \<le> wall (core t) \<and> mono (core s) \<le> mono (core t) \<and>
    wall (core t) - int (mono (core t)) = wall (core s) - int (mono (core s))"
proof (cases e)
  case (Core ev)
  then show ?thesis using server_stepD [OF assms] by (auto dest: core_step_clocks elim!: step_core_app)
qed (use server_stepD [OF assms] in \<open>auto simp: server_step_defs step_tick_def Let_def split_beta
    split: option.splits poll.splits sweeper.splits sum.splits bool.splits if_splits\<close>)

lemma poll_clock_mono: "poll_clock_ok w p \<Longrightarrow> w \<le> w' \<Longrightarrow> poll_clock_ok w' p"
  by (auto simp: poll_clock_ok_def split: poll.splits)

lemma poll_clock_simps [simp]:
  "poll_clock_ok w (Poll_Retaining inm now) \<longleftrightarrow> now \<le> w"
  "poll_clock_ok w (poll_answer inm x n ttl)"
  "poll_clock_ok w (Poll_Received inm)" "poll_clock_ok w (Poll_Waiting inm)"
  "poll_clock_ok w (Poll_Compressing inm p)" "poll_clock_ok w (Poll_Joined inm r)"
  "poll_clock_ok w Info_Received" "poll_clock_ok w (Poll_Done response)"
  "poll_clock_ok w Poll_Panicked" "poll_clock_ok w Poll_Left"
  by (simp_all add: poll_clock_ok_def poll_answer_def)

lemma step_clocks_ok:
  assumes "clocks_ok s" "server_step X C E L e s = Some t"
  shows "clocks_ok t"
proof (cases e)
  case (Core ev)
  then show ?thesis
    using assms(1) server_stepD [OF assms(2)]
    by (auto simp: clocks_ok_def dest: core_step_clocks elim!: step_core_app split: sweeper.splits)
next
  case (Pass n)
  then have "polls t = polls s" "sweep_task t = sweep_task s"
    using server_stepD [OF assms(2)] by (auto simp: step_pass_def step_tick_def split: if_splits)
  with assms(1) step_clocks_mono [OF assms(2)] show ?thesis
    by (fastforce simp: clocks_ok_def intro: poll_clock_mono [of "wall (core s)"] split: sweeper.splits)
qed (use assms(1) server_stepD [OF assms(2)] in \<open>auto simp: clocks_ok_def server_step_defs hm_simps Let_def split_beta
    split: option.splits poll.splits sweeper.splits sum.splits bool.splits if_splits\<close>)

interpretation clocks: guarded_machine "server_step X C E L" clocks_ok for X C E L
  by unfold_locales (rule step_clocks_ok)

lemma boot_clocks_ok: "clocks_ok (server_boot st w m d)"
  by (simp add: clocks_ok_def hm_simps)

lemma reachable_clocks_ok: "server_reachable X C E L (server_boot st w m d) s \<Longrightarrow> clocks_ok s"
  using clocks.reach_inv boot_clocks_ok by metis

section \<open>The simulation\<close>

lemma retain_is_sweep: "with_map (hm_retain (active (rate_limit_cooldown st) now)) st = sweep_state now st"
  by (simp add: sweep_state_def sweep_expired_identifiers_def [abs_def])

lemma sweep_refines:
  assumes "now \<le> wall c" "forget st = forget (sweep_state now (app c))"
  shows "system_step X E (Sweep (nat (wall c - now))) (erase c) = Some (erase (c\<lparr>app := st\<rparr>))"
  using assms by (simp add: step_sweep_def)

text \<open>Each step of the server is a step of \<open>System\<close> on what is left after \<open>erase\<close>, or leaves that unchanged.\<close>

definition mimics :: "externals \<Rightarrow> 'db engine \<Rightarrow> 'db System \<Rightarrow> 'db System \<Rightarrow> bool" where
  "mimics X E c c' \<longleftrightarrow> erase c' = erase c \<or> (\<exists>e. system_step X E e (erase c) = Some (erase c'))"

lemma mimicsI: "system_step X E e (erase c) = Some (erase c') \<Longrightarrow> mimics X E c c'"
  unfolding mimics_def by blast

lemma collect_mimics:
  assumes "now \<le> wall c"
  shows "mimics X E c (c\<lparr>app := snd (collect_snapshot X C now (app c))\<rparr>)"
  using mimicsI [OF sweep_refines [OF assms refl]] by (simp add: collect_snapshot_def Let_def retain_is_sweep)

lemma side_cells_mimic:
  "mimics X E c (c\<lparr>app := snd (take_attempts_token now (app c))\<rparr>)"
  "mimics X E c (c\<lparr>app := snd (get_info X F (app c))\<rparr>)"
  "mimics X E c (c\<lparr>app := (app c)\<lparr>attempts_snapshot := x\<rparr>\<rparr>)"
  by (simp_all add: mimics_def take_attempts_token_def get_info_def live_canary_def Let_def split_beta)

lemma step_mimics:
  assumes "clocks_ok s" "server_step X C E L e s = Some t"
  shows "mimics X E (core s) (core t)"
proof (cases e)
  case (Core ev)
  then show ?thesis
    using server_stepD [OF assms(2)] system_step_erase [of X E ev "core s"]
    by (auto simp: mimics_def elim!: step_core_app)
next
  case (Pass n)
  then have "core t = (core s)\<lparr>wall := wall (core s) + int n, mono := mono (core s) + n\<rparr>"
    using server_stepD [OF assms(2)] by (auto simp: step_pass_def step_tick_def split: if_splits)
  then show ?thesis by (auto simp: mimics_def step_tick_def intro!: exI [of _ "Tick n"])
next
  case (Poll_Collect j)
  then obtain inm now where p: "hm_get (polls s) j = Some (Poll_Retaining inm now)"
    "core t = (core s)\<lparr>app := snd (collect_snapshot X C now (app (core s)))\<rparr>"
    using server_stepD [OF assms(2)]
    by (auto simp: step_poll_collect_def memory_def Let_def split_beta split: option.splits poll.splits)
  then have "now \<le> wall (core s)" using assms(1) unfolding clocks_ok_def by (metis poll_clock_simps(1))
  then show ?thesis unfolding p(2) by (rule collect_mimics)
next
  case Sweeper_Run
  then obtain now where "sweep_task s = Locking now" "core t = (core s)\<lparr>app := sweep_state now (app (core s))\<rparr>"
    using server_stepD [OF assms(2)] by (auto simp: step_sweeper_run_def memory_def split: sweeper.splits)
  then show ?thesis
    using assms(1) mimicsI [OF sweep_refines [of now "core s" "sweep_state now (app (core s))"]]
    by (simp add: clocks_ok_def)
qed (use server_stepD [OF assms(2)] side_cells_mimic in \<open>auto simp: server_step_defs memory_def Let_def split_beta
    mimics_def [of X E c c for c] split: option.splits poll.splits sum.splits bool.splits if_splits\<close>)

lemma boot_erase: "erase (core (server_boot st w m d)) = boot (forget st) w m d"
  by (simp add: boot_def erase_def forget_def)

lemma server_simulation:
  assumes "server_reachable X C E L (server_boot st w m d) s"
  shows "reachable X E (boot (forget st) w m d) (erase (core s))"
  using assms
proof (induction rule: reach.induct)
  case reach_start
  then show ?case unfolding boot_erase by (rule reach.reach_start)
next
  case (reach_step s e t)
  then have "mimics X E (core s) (core t)" by (intro step_mimics reachable_clocks_ok)
  with reach_step.IH show ?case by (auto simp: mimics_def intro: reach.reach_step)
qed

lemma limits_ok_forget [simp]: "limits_ok (forget st) = limits_ok st"
  by (simp add: limits_ok_def)

lemma server_sys_inv:
  assumes "limits_ok st" "server_reachable X C E L (server_boot st w m d) s"
  shows "sys_inv X (forget st) (erase (core s))"
  using assms reachable_inv [OF _ server_simulation [OF assms(2)]] by simp

text \<open>A run of lookups and stores is a run of the server.\<close>

lemma core_run:
  "system_run X E es (core s) = Some c \<Longrightarrow> list_all (\<lambda>e. \<not> is_background e) es \<Longrightarrow> stage s = Serving \<Longrightarrow>
     server_run X C E L (map Core es) s = Some (s\<lparr>core := c\<rparr>)"
proof (induction es arbitrary: s)
  case (Cons e es)
  then obtain c1 where c1: "system_step X E e (core s) = Some c1" "system_run X E es c1 = Some c"
    by (auto split: option.splits)
  then have "server_step X C E L (Core e) s = Some (s\<lparr>core := c1\<rparr>)"
    using Cons.prems(2,3) by (simp add: server_step_def step_core_def)
  with Cons.IH [of "s\<lparr>core := c1\<rparr>"] c1(2) Cons.prems(2,3) show ?case by simp
qed simp

end
