(* ===== verification/Server_Scenario.thy ===== *)
theory Server_Scenario
  imports Server_Refinement Scenario
begin

text \<open>
  Runs of the whole server, evaluated: the run of theory \<open>Scenario\<close> inside the server, and then a poll
  of \<open>/attempts\<close> that builds the first snapshot. The properties of the server are witnessed on them.
\<close>

definition demo_latency :: nat where
  "demo_latency = 10 ^ 9"

abbreviation demo_step :: "server_event \<Rightarrow> table_db Server \<Rightarrow> table_db Server option" where
  "demo_step \<equiv> server_step reference_externals reference_codec table_engine demo_latency"

definition demo_start :: "table_db Server" where
  "demo_start = server_boot demo_state 0 0 demo_db"

text \<open>The server after the run of theory \<open>Scenario\<close>.\<close>

definition demo_server :: "table_db Server" where
  "demo_server = demo_start\<lparr>core := demo_final\<rparr>"

lemma demo_start_core: "core demo_start = demo_boot"
  by (simp add: demo_start_def demo_boot_def boot_def demo_state_def)

lemma demo_server_run: "guarded_run demo_step (map Core demo_events) demo_start = Some demo_server"
  unfolding demo_server_def
  by (rule core_run, unfold demo_start_core, rule demo_run) (simp_all add: demo_events_def demo_start_def)

text \<open>A poll up to the collection, and from there to its answer.\<close>

definition demo_map :: RateLimitMap where
  "demo_map = hm_insert demo_hash demo_info fmempty"

definition demo_payload :: AttemptsSnapshot where
  "demo_payload = the (snapshot_payload reference_externals reference_codec 0 demo_map)"

definition demo_collecting :: "nat \<Rightarrow> table_db Server" where
  "demo_collecting j = demo_server
     \<lparr>core := demo_final\<lparr>app := (app demo_final)\<lparr>attempts_token_bucket :=
        \<lparr>tokens = 19, capacity = 20, refill_per_second = 2, last_refill = 0\<rparr>\<rparr>\<rparr>,
      polls := hm_insert j (Poll_Retaining None 0) fmempty, snapshot_holder := Some j\<rparr>"

definition demo_compressing :: "nat \<Rightarrow> table_db Server" where
  "demo_compressing j = (demo_collecting j)
     \<lparr>polls := hm_insert j (Poll_Compressing None demo_payload) fmempty,
      collected := [(demo_payload, core (demo_collecting j))]\<rparr>"

definition demo_built :: AttemptsSnapshotCache where
  "demo_built =
     (let gz = to_json reference_codec demo_payload
      in \<lparr>gzip_body = gz, etag = CHR 0x22 # sha256_hex reference_externals gz @ [CHR 0x22], created_at = 0\<rparr>)"

definition demo_published :: "nat \<Rightarrow> table_db Server" where
  "demo_published j = set_memory ((memory (demo_compressing j))\<lparr>attempts_snapshot := Some demo_built\<rparr>)
     ((demo_compressing j)
       \<lparr>polls := hm_insert j (poll_answer None demo_built 0 (60 * 10 ^ 9)) fmempty,
        snapshot_holder := None, builds := [demo_built]\<rparr>)"

lemma demo_poll_start:
  "guarded_run demo_step [Poll_Arrive j None, Poll_Token j, Poll_Lock j] demo_server = Some (demo_collecting j)"
  using f64_round_nat [of 20] f64_round_nat [of 19]
  by (simp add: server_step_def step_poll_arrive_def step_poll_token_def step_poll_lock_def hm_simps
      take_attempts_token_def try_consume_def TokenBucket_new_def f64_add_def f64_mul_def f64_sub_def Let_def
      memory_def set_memory_def set_poll_def stale_def demo_collecting_def demo_server_def demo_start_def
      server_boot_def demo_final_def demo_system_def demo_state_def)

lemma demo_map_wf: "map_wf 2 2 demo_map"
  using ledger_okD(1) [OF sys_invD(3) [OF reachable_inv [OF demo_limits demo_reachable]]]
  by (simp add: demo_final_def demo_system_def demo_state_def demo_map_def)

lemma demo_payload: "snapshot_payload reference_externals reference_codec 0 demo_map = Some demo_payload"
proof -
  have "trunc_ok reference_externals" using reference_externals_ok by (simp add: externals_ok_def)
  moreover have "hm_get demo_map i = Some info \<Longrightarrow> time_ok (window_started_at info) \<and> time_ok (last_request_at info)" for i info
    by (auto simp: demo_map_def demo_info_def hm_simps time_ok_def split: if_splits)
  ultimately have "\<exists>p. snapshot_payload reference_externals reference_codec 0 demo_map = Some p"
    using snapshot_contents [OF codec_ok(1) _ demo_map_wf, of reference_externals 0] by (auto simp: time_ok_def)
  then show ?thesis by (auto simp: demo_payload_def)
qed

lemma demo_retained: "hm_retain (active nanos_per_minute 0) demo_map = demo_map"
  by (rule hm_eqI) (simp add: demo_map_def demo_info_def hm_simps active_def)

lemma demo_collects: "demo_step (Poll_Collect j) (demo_collecting j) = Some (demo_compressing j)"
  using demo_payload demo_retained
  by (simp add: server_step_def step_poll_collect_def collect_snapshot_def with_map_def memory_def Let_def
      set_memory_def set_poll_def hm_simps demo_map_def demo_collecting_def demo_compressing_def demo_server_def
      demo_start_def server_boot_def demo_final_def demo_system_def demo_state_def)

lemma demo_replies:
  "guarded_run demo_step [Poll_Compressed j True, Poll_Reply j] (demo_compressing j) = Some (demo_published j)"
  by (simp add: server_step_def step_poll_compressed_def step_poll_reply_def finish_snapshot_def compress_def
      reference_codec_def memory_def Let_def set_memory_def set_poll_def hm_simps demo_built_def
      demo_published_def demo_compressing_def demo_collecting_def demo_server_def demo_start_def server_boot_def
      demo_final_def demo_system_def demo_state_def)

definition demo_poll_events :: "nat \<Rightarrow> server_event list" where
  "demo_poll_events j =
     [Poll_Arrive j None, Poll_Token j, Poll_Lock j, Poll_Collect j, Poll_Compressed j True, Poll_Reply j]"

lemma demo_poll_run: "guarded_run demo_step (demo_poll_events j) demo_server = Some (demo_published j)"
proof -
  have "demo_poll_events j = [Poll_Arrive j None, Poll_Token j, Poll_Lock j] @ Poll_Collect j #
      [Poll_Compressed j True, Poll_Reply j]"
    by (simp add: demo_poll_events_def)
  then show ?thesis
    using demo_poll_start [of j] demo_collects [of j] demo_replies [of j]
    by (simp only: guarded_run_append) simp
qed

lemmas demo_server_reachable = guarded_run_reach [OF reach_start demo_server_run, unfolded demo_start_def]

lemmas demo_published_reachable = guarded_run_reach [OF demo_server_reachable demo_poll_run]

lemma demo_collecting_reachable:
  "server_reachable reference_externals reference_codec table_engine demo_latency
     (server_boot demo_state 0 0 demo_db) (demo_collecting j)"
  by (rule guarded_run_reach [OF demo_server_reachable demo_poll_start])

text \<open>
  C4. The server implements the machine of lookups and stores: whatever the telemetry, the canary, the
  sweeper and the shutdown do in between, what is left of a reachable state of the server once their
  cells are forgotten is a reachable state of \<open>System\<close>. All its invariants hold in the whole server.
\<close>

theorem server_refines_system:
  assumes "server_reachable X C E L (server_boot st w m d) s"
  shows "reachable X E (boot (forget st) w m d) (erase (core s))"
  using assms by (rule server_simulation)

theorem server_refines_system_witness:
  "reachable reference_externals table_engine (boot (forget demo_state) 0 0 demo_db) (erase (core (demo_published 0)))"
  by (rule server_refines_system [OF demo_published_reachable])

end
