(* ===== verification/Telemetry.thy ===== *)
theory Telemetry
  imports Server_Scenario
begin

text \<open>
  The polls of \<open>/attempts\<close> in the running server: the mutex of the snapshot is held by at most one
  poll and never lost, snapshots are installed at least a TTL apart, and every body that is served is
  the snapshot of a state the server was really in.
\<close>

section \<open>The cells of the telemetry\<close>

definition telemetry_cells :: "AppState \<Rightarrow> AttemptsSnapshotCache option \<times> nat \<times> DateTime" where
  "telemetry_cells st = (attempts_snapshot st, attempts_snapshot_ttl st, attempts_collection_started_at st)"

lemma telemetry_cells_simps [simp]:
  "telemetry_cells (with_map f st) = telemetry_cells st"
  "telemetry_cells (acquire_permit st) = telemetry_cells st"
  "telemetry_cells (release_permit st) = telemetry_cells st"
  "telemetry_cells (release_ticket tk st) = telemetry_cells st"
  "telemetry_cells (finalize_ticket tk r st) = telemetry_cells st"
  "telemetry_cells (sweep_state now st) = telemetry_cells st"
  "telemetry_cells (snd (admit_state st i c now)) = telemetry_cells st"
  "telemetry_cells (snd (take_lookup_token n st)) = telemetry_cells st"
  "telemetry_cells (snd (take_store_token n st)) = telemetry_cells st"
  "telemetry_cells (snd (take_attempts_token n st)) = telemetry_cells st"
  "telemetry_cells (snd (get_info X F st)) = telemetry_cells st"
  "telemetry_cells (snd (collect_snapshot X C now st)) = telemetry_cells st"
  "telemetry_cells (st\<lparr>attempts_snapshot := x\<rparr>) = (x, snd (telemetry_cells st))"
  by (simp_all add: telemetry_cells_def with_map_def acquire_permit_def release_permit_def release_ticket_def
      finalize_ticket_def sweep_state_def admit_state_def take_lookup_token_def take_store_token_def
      take_attempts_token_def get_info_def live_canary_def collect_snapshot_def Let_def split_beta)

lemma entry_step_cells [simp]:
  "telemetry_cells (snd (fetch_entry_step X request now st)) = telemetry_cells st"
  "telemetry_cells (snd (store_entry_step X request' now created st)) = telemetry_cells st"
  by (simp_all add: fetch_entry_step_def store_entry_step_def Let_def split_beta split: sum.splits option.splits)

lemma system_step_cells: "system_step X E e s = Some t \<Longrightarrow> telemetry_cells (app t) = telemetry_cells (app s)"
  by (cases e)
    (auto simp: set_job_def step_tick_def step_sweep_def step_arrive_def step_lookup_token_def step_admit_def
      step_permit_def step_permit_timed_out_def step_timeout_cleanup_def step_cancel_def drop_guard_def
      step_run_deferred_def step_query_def step_finalize_def step_answer_def step_store_token_def
      step_store_permit_def step_store_permit_timed_out_def step_store_write_def step_store_answer_def
      Let_def split_beta split: option.splits phase.splits bool.splits if_splits)

section \<open>The mutex\<close>

fun holds_lock :: "poll \<Rightarrow> bool" where
  "holds_lock (Poll_Retaining _ _) = True"
| "holds_lock (Poll_Compressing _ _) = True"
| "holds_lock (Poll_Joined _ _) = True"
| "holds_lock _ = False"

definition lock_ok :: "'db Server \<Rightarrow> bool" where
  "lock_ok s \<longleftrightarrow> (\<forall>j. snapshot_holder s = Some j \<longleftrightarrow> (\<exists>p. hm_get (polls s) j = Some p \<and> holds_lock p))"

lemma lock_okD: "lock_ok s \<Longrightarrow> hm_get (polls s) j = Some p \<Longrightarrow> holds_lock p \<Longrightarrow> snapshot_holder s = Some j"
  by (auto simp: lock_ok_def)

lemma poll_answer_no_lock [simp]: "\<not> holds_lock (poll_answer inm x n ttl)"
  by (simp add: poll_answer_def)

lemma lock_unique:
  assumes "lock_ok s" "hm_get (polls s) j = Some p" "holds_lock p"
  shows "hm_get (polls s) k = Some q \<Longrightarrow> holds_lock q \<longleftrightarrow> k = j"
  using assms lock_okD [OF assms] lock_okD [OF assms(1), of k q] by auto

text \<open>What a step can do to the mutex: nothing, move a poll that keeps its share of it, take it, drop it.\<close>

inductive lock_move ::
  "nat option \<Rightarrow> (nat, poll) hash_map \<Rightarrow> nat option \<Rightarrow> (nat, poll) hash_map \<Rightarrow> bool" where
  lock_stays: "lock_move h P h P"
| lock_kept: "(hm_get P j = None \<and> \<not> holds_lock p) \<or>
    (\<exists>q. hm_get P j = Some q \<and> holds_lock q = holds_lock p) \<Longrightarrow> lock_move h P h (hm_insert j p P)"
| lock_taken: "holds_lock p \<Longrightarrow> lock_move None P (Some j) (hm_insert j p P)"
| lock_dropped: "hm_get P j = Some q \<Longrightarrow> holds_lock q \<Longrightarrow> \<not> holds_lock p \<Longrightarrow>
    lock_move h P None (hm_insert j p P)"

lemma step_lock_move:
  assumes "server_step X C E L e s = Some t"
  shows "lock_move (snapshot_holder s) (polls s) (snapshot_holder t) (polls t)"
proof (cases e)
  case (Core ev)
  then show ?thesis using server_stepD [OF assms] by (auto elim!: step_core_app intro: lock_stays)
qed (use server_stepD [OF assms] in \<open>auto simp: server_step_defs step_tick_def Let_def split_beta
    split: option.splits poll.splits sweeper.splits sum.splits bool.splits if_splits
    intro: lock_stays\<close>, ((rule lock_kept lock_taken; simp; fail) | (rule lock_dropped, assumption; simp; fail))+)

lemma step_lock_ok:
  assumes "lock_ok s" "server_step X C E L e s = Some t"
  shows "lock_ok t"
  using step_lock_move [OF assms(2)]
proof cases
  case (lock_kept j p)
  then show ?thesis using assms(1) by (auto simp: lock_ok_def hm_simps split: option.splits)
next
  case (lock_dropped j q p)
  then show ?thesis using assms(1) lock_unique [OF assms(1), of j q] by (auto simp: lock_ok_def hm_simps)
qed (use assms(1) in \<open>auto simp: lock_ok_def hm_simps\<close>)

interpretation mutex: guarded_machine "server_step X C E L" lock_ok for X C E L
  by unfold_locales (rule step_lock_ok)

lemma boot_lock_ok: "lock_ok (server_boot st w m d)"
  by (simp add: lock_ok_def hm_simps)

section \<open>What is installed and what is served\<close>

text \<open>A snapshot that some collected payload compresses to.\<close>

definition built_from :: "externals \<Rightarrow> snapshot_codec \<Rightarrow> AttemptsSnapshot set \<Rightarrow> AttemptsSnapshotCache \<Rightarrow> bool" where
  "built_from X C P x \<longleftrightarrow> (\<exists>payload\<in>P. compress X C (created_at x) payload = Inr x)"

definition served_from :: "AttemptsSnapshotCache set \<Rightarrow> Response \<Rightarrow> bool" where
  "served_from B r \<longleftrightarrow> (\<forall>gz. body r = Bytes gz \<longrightarrow>
     (\<exists>x\<in>B. gz = gzip_body x \<and> status r = OK \<and> ETag (etag x) \<in> set (headers r)))"

text \<open>All snapshots of \<open>B\<close> have expired at \<open>m\<close>.\<close>

definition expired_by :: "nat \<Rightarrow> AttemptsSnapshotCache set \<Rightarrow> instant \<Rightarrow> bool" where
  "expired_by ttl B m \<longleftrightarrow> (\<forall>x\<in>B. created_at x + ttl \<le> m)"

definition poll_ok ::
  "externals \<Rightarrow> snapshot_codec \<Rightarrow> nat \<Rightarrow> instant \<Rightarrow> AttemptsSnapshot set \<Rightarrow> AttemptsSnapshotCache set \<Rightarrow> poll \<Rightarrow> bool" where
  "poll_ok X C ttl m P B p \<longleftrightarrow>
     (case p of
        Poll_Retaining _ _ \<Rightarrow> expired_by ttl B m
      | Poll_Compressing _ payload \<Rightarrow> expired_by ttl B m \<and> payload \<in> P
      | Poll_Joined _ r \<Rightarrow>
          (case r of
             Inl response \<Rightarrow> served_from B response
           | Inr x \<Rightarrow> built_from X C P x \<and> created_at x \<le> m \<and> expired_by ttl B (created_at x))
      | Poll_Done response \<Rightarrow> served_from B response
      | _ \<Rightarrow> True)"

lemma poll_ok_simps [simp]:
  "poll_ok X C ttl m P B (Poll_Received inm)" "poll_ok X C ttl m P B (Poll_Waiting inm)"
  "poll_ok X C ttl m P B Info_Received" "poll_ok X C ttl m P B Poll_Panicked" "poll_ok X C ttl m P B Poll_Left"
  "poll_ok X C ttl m P B (Poll_Retaining inm now) \<longleftrightarrow> expired_by ttl B m"
  "poll_ok X C ttl m P B (Poll_Compressing inm payload) \<longleftrightarrow> expired_by ttl B m \<and> payload \<in> P"
  "poll_ok X C ttl m P B (Poll_Joined inm (Inl response)) \<longleftrightarrow> served_from B response"
  "poll_ok X C ttl m P B (Poll_Joined inm (Inr x)) \<longleftrightarrow>
     built_from X C P x \<and> created_at x \<le> m \<and> expired_by ttl B (created_at x)"
  "poll_ok X C ttl m P B (Poll_Done response) \<longleftrightarrow> served_from B response"
  by (simp_all add: poll_ok_def)

definition telemetry_ok :: "externals \<Rightarrow> snapshot_codec \<Rightarrow> nat \<Rightarrow> 'db Server \<Rightarrow> bool" where
  "telemetry_ok X C ttl s \<longleftrightarrow>
     attempts_snapshot_ttl (memory s) = ttl \<and>
     attempts_snapshot (memory s) = (case builds s of [] \<Rightarrow> None | x # _ \<Rightarrow> Some x) \<and>
     sorted_wrt (\<lambda>x y. created_at y + ttl \<le> created_at x) (builds s) \<and>
     (\<forall>x\<in>set (builds s). built_from X C (fst ` set (collected s)) x \<and> created_at x \<le> mono (core s)) \<and>
     (\<forall>j p. hm_get (polls s) j = Some p \<longrightarrow>
        poll_ok X C ttl (mono (core s)) (fst ` set (collected s)) (set (builds s)) p)"

lemma expired_by_mono: "expired_by ttl B m \<Longrightarrow> m \<le> m' \<Longrightarrow> expired_by ttl B m'"
  by (auto simp: expired_by_def)

lemma built_from_mono: "built_from X C P x \<Longrightarrow> P \<subseteq> P' \<Longrightarrow> built_from X C P' x"
  by (auto simp: built_from_def)

lemma served_from_mono: "served_from B r \<Longrightarrow> B \<subseteq> B' \<Longrightarrow> served_from B' r"
  unfolding served_from_def by (meson subsetD)

lemma poll_ok_mono:
  "poll_ok X C ttl m P B p \<Longrightarrow> m \<le> m' \<Longrightarrow> P \<subseteq> P' \<Longrightarrow> poll_ok X C ttl m' P' B p"
  by (auto simp: poll_ok_def dest: expired_by_mono built_from_mono split: poll.splits sum.splits)

text \<open>A new snapshot does not disturb a poll that is not in the lock.\<close>

lemma poll_ok_install: "poll_ok X C ttl m P B p \<Longrightarrow> \<not> holds_lock p \<Longrightarrow> B \<subseteq> B' \<Longrightarrow> poll_ok X C ttl m P B' p"
  by (auto simp: poll_ok_def dest: served_from_mono split: poll.splits)

lemma served_from_other:
  "(\<And>gz. body r \<noteq> Bytes gz) \<Longrightarrow> served_from B r"
  by (simp add: served_from_def)

lemma served_error [simp]:
  "served_from B attempts_overload_response" "served_from B snapshot_error_response"
  by (simp_all add: served_from_def attempts_overload_response_def snapshot_error_response_def error_body_def)

lemma served_info: "fst (get_info X F st) = Some r \<Longrightarrow> served_from B r"
  by (auto simp: served_from_def get_info_def Let_def split_beta)

lemma poll_answer_ok: "x \<in> B \<Longrightarrow> poll_ok X C ttl m P B (poll_answer inm x n ttl')"
  by (auto simp: poll_answer_def served_from_def snapshot_response_def)

lemma stale_expires:
  assumes "telemetry_ok X C ttl s" "stale (attempts_snapshot (memory s)) (mono (core s)) ttl"
  shows "expired_by ttl (set (builds s)) (mono (core s))"
proof (cases "builds s")
  case Nil
  then show ?thesis by (simp add: expired_by_def)
next
  case (Cons x xs)
  then have x: "created_at x + ttl \<le> mono (core s)"
    using assms by (auto simp: telemetry_ok_def stale_def)
  have "created_at y + ttl \<le> mono (core s)" if "y \<in> set xs" for y
  proof -
    have "created_at y + ttl \<le> created_at x" using assms(1) Cons that by (simp add: telemetry_ok_def)
    with x show ?thesis by linarith
  qed
  with x show ?thesis using Cons by (auto simp: expired_by_def)
qed

lemma finish_built:
  "payload \<in> P \<Longrightarrow> finish_snapshot X C m joined payload = Inr x \<Longrightarrow> built_from X C P x \<and> created_at x = m"
  by (auto simp: finish_snapshot_def built_from_def compress_def split: if_splits sum.splits intro!: bexI [of _ payload])

lemma finish_error: "finish_snapshot X C m joined payload = Inl r \<Longrightarrow> r = snapshot_error_response"
  by (auto simp: finish_snapshot_def split: if_splits sum.splits)

text \<open>A step that installs nothing, seen through the cells it touches.\<close>

lemma telemetry_frame:
  assumes "telemetry_ok X C ttl s" "telemetry_cells (memory t) = telemetry_cells (memory s)"
    and "builds t = builds s" "mono (core s) \<le> mono (core t)" "set (collected s) \<subseteq> set (collected t)"
    and "polls t = polls s \<or> (\<exists>j p. polls t = hm_insert j p (polls s) \<and>
      poll_ok X C ttl (mono (core t)) (fst ` set (collected t)) (set (builds s)) p)"
  shows "telemetry_ok X C ttl t"
proof -
  have P: "fst ` set (collected s) \<subseteq> fst ` set (collected t)" using assms(5) by blast
  have "poll_ok X C ttl (mono (core t)) (fst ` set (collected t)) (set (builds s)) p"
    if "hm_get (polls s) j = Some p" for j p
    using assms(1) that poll_ok_mono [OF _ assms(4) P] by (auto simp: telemetry_ok_def)
  then have "poll_ok X C ttl (mono (core t)) (fst ` set (collected t)) (set (builds s)) p"
    if "hm_get (polls t) j = Some p" for j p
    using assms(6) that by (auto simp: hm_simps split: if_splits)
  moreover have "built_from X C (fst ` set (collected t)) x \<and> created_at x \<le> mono (core t)"
    if "x \<in> set (builds s)" for x
    using assms(1,4) that built_from_mono [OF _ P] by (auto simp: telemetry_ok_def dest: le_trans)
  ultimately show ?thesis
    using assms(1-3) by (simp add: telemetry_ok_def telemetry_cells_def)
qed

lemma lock_telemetry_ok:
  assumes "telemetry_ok X C ttl s" "step_poll_lock j s = Some t"
  shows "telemetry_ok X C ttl t"
proof -
  have ttl: "attempts_snapshot_ttl (memory s) = ttl" using assms(1) by (simp add: telemetry_ok_def)
  have fresh: "x \<in> set (builds s)" if "attempts_snapshot (memory s) = Some x" for x
    using assms(1) that by (auto simp: telemetry_ok_def split: list.splits)
  show ?thesis
    using assms(2) fresh stale_expires [OF assms(1)]
    by (auto simp: step_poll_lock_def Let_def ttl memory_def [symmetric] stale_def poll_answer_ok
        split: option.splits poll.splits bool.splits intro!: telemetry_frame [OF assms(1)] exI [of _ j])
qed

lemma reply_telemetry_ok:
  assumes ok: "telemetry_ok X C ttl s" and lock: "lock_ok s" and step: "step_poll_reply j s = Some t"
  shows "telemetry_ok X C ttl t"
proof -
  obtain inm r where p: "hm_get (polls s) j = Some (Poll_Joined inm r)"
    using step by (auto simp: step_poll_reply_def split: option.splits poll.splits)
  have j: "poll_ok X C ttl (mono (core s)) (fst ` set (collected s)) (set (builds s)) (Poll_Joined inm r)"
    using ok p by (auto simp: telemetry_ok_def)
  show ?thesis
  proof (cases r)
    case (Inl response)
    then have "t = set_poll j (Poll_Done response) (s\<lparr>snapshot_holder := None\<rparr>)"
      using step p by (simp add: step_poll_reply_def)
    with j Inl show ?thesis by (auto intro!: telemetry_frame [OF ok] exI [of _ j])
  next
    case (Inr x)
    have others: "poll_ok X C ttl (mono (core s)) (fst ` set (collected s)) (insert x (set (builds s))) q"
      if "hm_get (polls s) k = Some q" "k \<noteq> j" for k q
    proof (rule poll_ok_install)
      show "poll_ok X C ttl (mono (core s)) (fst ` set (collected s)) (set (builds s)) q"
        using ok that(1) by (auto simp: telemetry_ok_def)
      show "\<not> holds_lock q" using lock_unique [OF lock p _ that(1)] that(2) by simp
    qed auto
    have "t = set_poll j (poll_answer inm x (mono (core s)) (attempts_snapshot_ttl (memory s)))
        (set_memory ((memory s)\<lparr>attempts_snapshot := Some x\<rparr>)
          (s\<lparr>snapshot_holder := None, builds := x # builds s\<rparr>))"
      using step p Inr by (simp add: step_poll_reply_def)
    then show ?thesis
      using ok j Inr others
      by (auto simp: telemetry_ok_def hm_simps expired_by_def poll_answer_ok split: if_splits)
  qed
qed

definition telemetry_inv :: "externals \<Rightarrow> snapshot_codec \<Rightarrow> nat \<Rightarrow> 'db Server \<Rightarrow> bool" where
  "telemetry_inv X C ttl s \<longleftrightarrow> lock_ok s \<and> telemetry_ok X C ttl s"

lemma step_telemetry_ok:
  assumes "lock_ok s" and ok: "telemetry_ok X C ttl s" and step: "server_step X C E L e s = Some t"
  shows "telemetry_ok X C ttl t"
proof (cases e)
  case (Core ev)
  then have "telemetry_cells (memory t) = telemetry_cells (memory s)" "builds t = builds s"
      "collected t = collected s" "polls t = polls s"
    using server_stepD [OF step] by (auto simp: memory_def dest: system_step_cells elim!: step_core_app)
  with step_clocks_mono [OF step] show ?thesis by (intro telemetry_frame [OF ok]) simp_all
next
  case (Poll_Lock j)
  then show ?thesis using server_stepD [OF step] by (auto intro: lock_telemetry_ok [OF ok])
next
  case (Poll_Reply j)
  then show ?thesis using server_stepD [OF step] by (auto intro: reply_telemetry_ok [OF ok assms(1)])
next
  case (Poll_Collect j)
  then obtain inm now where p: "hm_get (polls s) j = Some (Poll_Retaining inm now)"
    using server_stepD [OF step] by (auto simp: step_poll_collect_def split: option.splits poll.splits)
  moreover have "expired_by ttl (set (builds s)) (mono (core s))" using ok p by (force simp: telemetry_ok_def)
  ultimately show ?thesis
    using server_stepD [OF step] Poll_Collect
    by (auto simp: step_poll_collect_def Let_def split_beta split: option.splits
        intro!: telemetry_frame [OF ok] exI [of _ j])
next
  case (Poll_Compressed j joined)
  then obtain inm payload where p: "hm_get (polls s) j = Some (Poll_Compressing inm payload)"
    using server_stepD [OF step] by (auto simp: step_poll_compressed_def split: option.splits poll.splits)
  then have due: "expired_by ttl (set (builds s)) (mono (core s))" and P: "payload \<in> fst ` set (collected s)"
    using ok by (force simp: telemetry_ok_def)+
  have "poll_ok X C ttl (mono (core s)) (fst ` set (collected s)) (set (builds s))
      (Poll_Joined inm (finish_snapshot X C (mono (core s)) joined payload))"
    using due by (cases "finish_snapshot X C (mono (core s)) joined payload")
      (auto dest: finish_error finish_built [OF P])
  moreover have "t = set_poll j (Poll_Joined inm (finish_snapshot X C (mono (core s)) joined payload)) s"
    using server_stepD [OF step] Poll_Compressed p by (simp add: step_poll_compressed_def)
  ultimately show ?thesis by (intro telemetry_frame [OF ok]) auto
next
  case (Info_Answer j F)
  then show ?thesis
    using server_stepD [OF step]
    by (cases "fst (get_info X F (memory s))")
      (auto simp: step_info_answer_def Let_def split_beta split: option.splits poll.splits dest: served_info
        intro!: telemetry_frame [OF ok] exI [of _ j] exI [of _ "if r = None then Poll_Panicked else Poll_Done (the r)" for r])
next
  case (Poll_Token j)
  then show ?thesis
    using server_stepD [OF step]
    by (auto simp: step_poll_token_def Let_def split_beta split: option.splits poll.splits
        intro!: telemetry_frame [OF ok] exI [of _ j])
next
  case (Pass n)
  with server_stepD [OF step] step_clocks_mono [OF step] show ?thesis
    by (auto simp: step_pass_def step_tick_def memory_def split: if_splits intro!: telemetry_frame [OF ok])
next
  case (Poll_Arrive j inm)
  then show ?thesis
    using server_stepD [OF step]
    by (auto simp: step_poll_arrive_def split: if_splits intro!: telemetry_frame [OF ok] exI [of _ j])
next
  case (Info_Arrive j)
  then show ?thesis
    using server_stepD [OF step]
    by (auto simp: step_poll_arrive_def split: if_splits intro!: telemetry_frame [OF ok] exI [of _ j])
next
  case (Poll_Cancel j)
  then show ?thesis
    using server_stepD [OF step]
    by (auto simp: step_poll_cancel_def split: option.splits poll.splits
        intro!: telemetry_frame [OF ok] exI [of _ j])
qed (use server_stepD [OF step] in \<open>auto simp: step_sweeper_wake_def step_sweeper_run_def step_signal_def
    step_stop_def memory_def split: sweeper.splits if_splits intro!: telemetry_frame [OF ok]\<close>)

interpretation telemetry: guarded_machine "server_step X C E L" "telemetry_inv X C ttl" for X C E L ttl
  by unfold_locales (auto simp: telemetry_inv_def intro: step_lock_ok step_telemetry_ok)

lemma boot_telemetry_inv: "telemetry_inv X C (attempts_snapshot_ttl st) (server_boot st w m d)"
  by (simp add: telemetry_inv_def boot_lock_ok telemetry_ok_def memory_def boot_def hm_simps)

lemma reachable_telemetry:
  assumes "server_reachable X C E L (server_boot st w m d) s"
  shows "lock_ok s" "telemetry_ok X C (attempts_snapshot_ttl st) s"
  using telemetry.reach_inv [OF assms boot_telemetry_inv] by (simp_all add: telemetry_inv_def)

section \<open>The states that were published\<close>

text \<open>Every payload was collected from the map of a reachable state.\<close>

definition collected_ok ::
  "externals \<Rightarrow> snapshot_codec \<Rightarrow> 'db engine \<Rightarrow> 'db System \<Rightarrow> DateTime \<Rightarrow> 'db Server \<Rightarrow> bool" where
  "collected_ok X C E c0 started s \<longleftrightarrow>
     (\<forall>(payload, c)\<in>set (collected s). reachable X E c0 (erase c) \<and>
        snapshot_payload X C started (identifier_rate_limit (app c)) = Some payload)"

lemma step_collected:
  assumes "server_step X C E L e s = Some t"
  shows "collected t = collected s \<or>
    (\<exists>payload. collected t = (payload, core t) # collected s \<and>
       snapshot_payload X C (attempts_collection_started_at (memory s)) (identifier_rate_limit (memory t)) = Some payload)"
proof (cases e)
  case (Core ev)
  then show ?thesis using server_stepD [OF assms] by (auto elim!: step_core_app)
qed (use server_stepD [OF assms] in \<open>auto simp: server_step_defs step_tick_def collect_snapshot_def Let_def split_beta
    split: option.splits poll.splits sweeper.splits sum.splits bool.splits if_splits\<close>)

lemma step_started:
  assumes "server_step X C E L e s = Some t"
  shows "snd (telemetry_cells (memory t)) = snd (telemetry_cells (memory s))"
proof (cases e)
  case (Core ev)
  then show ?thesis
    using server_stepD [OF assms] by (auto simp: memory_def dest: system_step_cells elim!: step_core_app)
qed (use server_stepD [OF assms] in \<open>auto simp: server_step_defs step_tick_def Let_def split_beta
    memory_def [of "x\<lparr>core := c\<rparr>" for x c] memory_def [symmetric]
    split: option.splits poll.splits sweeper.splits sum.splits bool.splits if_splits\<close>)

lemma reachable_collected:
  assumes "server_reachable X C E L (server_boot st w m d) s"
  shows "collected_ok X C E (boot (forget st) w m d) (attempts_collection_started_at st) s \<and>
    attempts_collection_started_at (memory s) = attempts_collection_started_at st"
  using assms
proof (induction rule: reach.induct)
  case reach_start
  show ?case by (simp add: collected_ok_def memory_def boot_def)
next
  case (reach_step s e t)
  have "server_reachable X C E L (server_boot st w m d) t"
    using reach_step.hyps by (rule reach.reach_step)
  then have "reachable X E (boot (forget st) w m d) (erase (core t))" by (rule server_simulation)
  with reach_step.IH step_collected [OF reach_step.hyps(2)] step_started [OF reach_step.hyps(2)]
  show ?case by (auto simp: collected_ok_def telemetry_cells_def memory_def)
qed

section \<open>Properties\<close>

fun poll_of :: "server_event \<Rightarrow> nat option" where
  "poll_of (Poll_Arrive j _) = Some j"
| "poll_of (Info_Arrive j) = Some j"
| "poll_of (Poll_Token j) = Some j"
| "poll_of (Poll_Lock j) = Some j"
| "poll_of (Poll_Collect j) = Some j"
| "poll_of (Poll_Compressed j _) = Some j"
| "poll_of (Poll_Reply j) = Some j"
| "poll_of (Poll_Cancel j) = Some j"
| "poll_of (Info_Answer j _) = Some j"
| "poll_of _ = None"

text \<open>The poll in the lock leaves it by its own next events, and answers when it does.\<close>

definition frees :: "externals \<Rightarrow> snapshot_codec \<Rightarrow> 'db engine \<Rightarrow> nat \<Rightarrow> nat \<Rightarrow> nat \<Rightarrow> 'db Server \<Rightarrow> bool" where
  "frees X C E L n j s \<longleftrightarrow> (\<exists>es t. (\<forall>e\<in>set es. poll_of e = Some j) \<and> length es \<le> n \<and>
     server_run X C E L es s = Some t \<and> snapshot_holder t = None \<and>
     (\<exists>p. hm_get (polls t) j = Some p \<and> \<not> poll_attached p))"

lemma freesI:
  "server_step X C E L e s = Some t \<Longrightarrow> poll_of e = Some j \<Longrightarrow> snapshot_holder t = None \<Longrightarrow>
     hm_get (polls t) j = Some p \<Longrightarrow> \<not> poll_attached p \<Longrightarrow> frees X C E L (Suc n) j s"
  unfolding frees_def by (intro exI [of _ "[e]"]) simp

lemma frees_step:
  assumes "server_step X C E L e s = Some t" "poll_of e = Some j" "frees X C E L n j t"
  shows "frees X C E L (Suc n) j s"
proof -
  from assms(3) obtain es u where "\<forall>e\<in>set es. poll_of e = Some j" "length es \<le> n"
      "server_run X C E L es t = Some u" "snapshot_holder u = None"
      "\<exists>p. hm_get (polls u) j = Some p \<and> \<not> poll_attached p"
    by (auto simp: frees_def)
  with assms(1,2) show ?thesis unfolding frees_def by (intro exI [of _ "e # es"]) simp
qed

lemma joined_frees:
  assumes "stage s \<noteq> Stopped" "hm_get (polls s) j = Some (Poll_Joined inm r)"
  shows "frees X C E L (Suc n) j s"
  using assms by (cases r)
    (auto simp: server_step_def step_poll_reply_def hm_simps poll_answer_def intro!: freesI [of X C E L "Poll_Reply j"])

lemma compressing_frees:
  assumes "stage s \<noteq> Stopped" "hm_get (polls s) j = Some (Poll_Compressing inm payload)"
  shows "frees X C E L (Suc (Suc n)) j s"
  using assms by (intro frees_step [of X C E L "Poll_Compressed j True" s "set_poll j
      (Poll_Joined inm (finish_snapshot X C (mono (core s)) True payload)) s"])
    (auto simp: server_step_def step_poll_compressed_def hm_simps intro!: joined_frees)

lemma lock_frees:
  assumes "stage s \<noteq> Stopped" "hm_get (polls s) j = Some p" "holds_lock p"
  shows "frees X C E L 3 j s"
proof (cases p)
  case (Poll_Retaining inm now)
  let ?s = "set_memory (snd (collect_snapshot X C now (memory s))) s"
  show ?thesis
  proof (cases "fst (collect_snapshot X C now (memory s))")
    case None
    then have "server_step X C E L (Poll_Collect j) s = Some (set_poll j Poll_Panicked (?s\<lparr>snapshot_holder := None\<rparr>))"
      using assms(1,2) Poll_Retaining by (simp add: server_step_def step_poll_collect_def Let_def split_beta)
    then show ?thesis
      unfolding numeral_3_eq_3 by (rule freesI [where p = Poll_Panicked]) (simp_all add: hm_simps)
  next
    case (Some payload)
    let ?t = "set_poll j (Poll_Compressing inm payload) (?s\<lparr>collected := (payload, core ?s) # collected s\<rparr>)"
    have "server_step X C E L (Poll_Collect j) s = Some ?t"
      using assms(1,2) Poll_Retaining Some by (simp add: server_step_def step_poll_collect_def Let_def split_beta)
    then show ?thesis
      unfolding numeral_3_eq_3 by (rule frees_step) (use assms(1) in \<open>auto intro!: compressing_frees simp: hm_simps\<close>)
  qed
qed (use assms compressing_frees [OF assms(1), of j _ _ X C E L 1] joined_frees [OF assms(1), of j _ _ X C E L 2]
    in \<open>simp_all add: numeral_3_eq_3 numeral_2_eq_2\<close>)



lemma spaced_span:
  fixes f :: "'a \<Rightarrow> nat"
  shows "sorted_wrt (\<lambda>x y. f y + d \<le> f x) (x # xs) \<Longrightarrow> \<forall>y\<in>set (x # xs). t0 \<le> f y \<Longrightarrow> t0 + length xs * d \<le> f x"
proof (induction xs arbitrary: x)
  case (Cons y ys)
  then have "t0 + length ys * d \<le> f y" "f y + d \<le> f x" by simp_all
  then show ?case by (simp add: algebra_simps)
qed simp

lemma spaced_count:
  fixes f :: "'a \<Rightarrow> nat"
  assumes "sorted_wrt (\<lambda>x y. f y + d \<le> f x) xs" "0 < d" "\<forall>x\<in>set xs. t0 \<le> f x \<and> f x \<le> t1"
  shows "length xs \<le> (t1 - t0) div d + 1"
proof (cases xs)
  case (Cons x ys)
  then have "t0 + length ys * d \<le> f x" "f x \<le> t1"
    using spaced_span [of f d x ys t0] assms(1,3) by auto
  then have "length ys * d \<le> t1 - t0" by simp
  then have "length ys \<le> (t1 - t0) div d" using assms(2) by (simp add: less_eq_div_iff_mult_less_eq)
  with Cons show ?thesis by simp
qed simp

text \<open>
  C34. The snapshot is installed at most once per TTL window: whatever polls arrive, two snapshots that
  enter the cache are created at least a TTL apart, so in any stretch of time from \<open>t0\<close> to \<open>t1\<close> there
  are at most \<open>(t1 - t0) div ttl + 1\<close> of them.
\<close>

theorem builds_are_spaced:
  assumes "server_reachable X C E L (server_boot st w m d) s" "0 < attempts_snapshot_ttl st"
  shows "sorted_wrt (\<lambda>x y. created_at y + attempts_snapshot_ttl st \<le> created_at x) (builds s) \<and>
    length (filter (\<lambda>x. t0 \<le> created_at x \<and> created_at x \<le> t1) (builds s)) \<le> (t1 - t0) div attempts_snapshot_ttl st + 1"
proof -
  have sorted: "sorted_wrt (\<lambda>x y. created_at y + attempts_snapshot_ttl st \<le> created_at x) (builds s)"
    using reachable_telemetry(2) [OF assms(1)] by (simp add: telemetry_ok_def)
  then show ?thesis
    using spaced_count [OF sorted_wrt_filter assms(2), of created_at "builds s" _ t0 t1] by simp
qed

theorem builds_are_spaced_witness:
  "length (filter (\<lambda>x. 0 \<le> created_at x \<and> created_at x \<le> 9) (builds (demo_published 0))) \<le> 1"
  using builds_are_spaced [OF demo_published_reachable, of 0 0 9] by (simp add: demo_state_def)

text \<open>
  C33. What \<open>/attempts\<close> publishes is true: every body that a poll was answered with is the compressed
  snapshot of the map of a state the server was really in, after the retain. It has exactly one entry
  for each identifier of that map, in strictly increasing order of the hashes, with the counters of the
  map; it is sent as \<open>200\<close> with the \<open>ETag\<close> of its bytes, and it is one of the snapshots installed.
\<close>

theorem published_is_true:
  assumes "iter_ok C" "server_reachable X C E L (server_boot st w m d) s"
    and "hm_get (polls s) j = Some (Poll_Done r)" "body r = Bytes gz"
  shows "\<exists>c payload. reachable X E (boot (forget st) w m d) (erase c) \<and>
    snapshot_payload X C (attempts_collection_started_at st) (identifier_rate_limit (app c)) = Some payload \<and>
    gzip C (to_json C payload) = Inr gz \<and>
    sorted_wrt (<) (map ae_id_hash (snap_entries payload)) \<and>
    ae_id_hash ` set (snap_entries payload) = hm_keys (identifier_rate_limit (app c)) \<and>
    set (snap_entries payload) =
      {e. \<exists>i info. hm_get (identifier_rate_limit (app c)) i = Some info \<and> attempt_entry X (i, info) = Some e} \<and>
    status r = OK \<and> ETag (CHR 0x22 # sha256_hex X gz @ [CHR 0x22]) \<in> set (headers r) \<and>
    gz \<in> gzip_body ` set (builds s)"
proof -
  note ok = reachable_telemetry(2) [OF assms(2)]
  then have "served_from (set (builds s)) r" using assms(3) by (force simp: telemetry_ok_def)
  then obtain x where x: "x \<in> set (builds s)" "gz = gzip_body x" "status r = OK" "ETag (etag x) \<in> set (headers r)"
    using assms(4) by (auto simp: served_from_def)
  then have "built_from X C (fst ` set (collected s)) x" using ok by (simp add: telemetry_ok_def)
  then obtain payload c where p: "(payload, c) \<in> set (collected s)" "compress X C (created_at x) payload = Inr x"
    by (auto simp: built_from_def)
  then have "reachable X E (boot (forget st) w m d) (erase c)"
      and payload: "snapshot_payload X C (attempts_collection_started_at st) (identifier_rate_limit (app c)) = Some payload"
    using reachable_collected [OF assms(2)] by (auto simp: collected_ok_def)
  moreover obtain gz' where gz': "gzip C (to_json C payload) = Inr gz'"
      "x = \<lparr>gzip_body = gz', etag = CHR 0x22 # sha256_hex X gz' @ [CHR 0x22], created_at = created_at x\<rparr>"
    using p(2) by (auto simp: compress_def split: sum.splits)
  have "gzip_body x = gz'" "etag x = CHR 0x22 # sha256_hex X gz' @ [CHR 0x22]"
    by (subst gz'(2), simp)+
  then have "gzip C (to_json C payload) = Inr gz" "ETag (CHR 0x22 # sha256_hex X gz @ [CHR 0x22]) \<in> set (headers r)"
    using gz'(1) x(2,4) by simp_all
  moreover note snapshot_payload_entries [OF assms(1) payload]
  moreover have "gz \<in> gzip_body ` set (builds s)" using x(1,2) by blast
  ultimately show ?thesis using payload x(3) by - (elim conjE, intro exI [of _ c] exI [of _ payload] conjI; assumption)
qed

theorem published_is_true_witness:
  "\<exists>c payload. reachable reference_externals table_engine (boot (forget demo_state) 0 0 demo_db) (erase c) \<and>
    gzip reference_codec (to_json reference_codec payload) = Inr (gzip_body demo_built) \<and>
    ae_id_hash ` set (snap_entries payload) = hm_keys (identifier_rate_limit (app c))"
proof -
  have "hm_get (polls (demo_published 0)) 0 =
      Some (Poll_Done (snapshot_response None demo_built (remaining_max_age (0 - created_at demo_built) (60 * 10 ^ 9))))"
    by (simp add: demo_published_def poll_answer_def hm_simps)
  from published_is_true [OF codec_ok(1) demo_published_reachable this, of "gzip_body demo_built"]
  show ?thesis by (force simp: snapshot_response_def not_modified_def)
qed

section \<open>Abandoned builds\<close>

text \<open>
  The lock does not bound the work: a client that leaves while the blocking task compresses frees the
  lock, the task goes on unheard, and the next poll collects and compresses again at the same instant.
\<close>

lemma next_poll_collects:
  assumes "stage s = Serving" "hm_get (polls s) j = None" "snapshot_holder s = None"
    and "take_attempts_token (mono (core s)) (memory s) = (True, st)" "attempts_snapshot st = None"
    and "fst (collect_snapshot X C (wall (core s)) st) = Some payload"
  shows "\<exists>t. server_run X C E L [Poll_Arrive j None, Poll_Token j, Poll_Lock j, Poll_Collect j] s = Some t \<and>
    length (collected t) = Suc (length (collected s)) \<and> builds t = builds s \<and> mono (core t) = mono (core s)"
proof -
  let ?s1 = "set_poll j (Poll_Received None) s"
  let ?s2 = "set_poll j (Poll_Waiting None) (set_memory st ?s1)"
  let ?s3 = "set_poll j (Poll_Retaining None (wall (core s))) (?s2\<lparr>snapshot_holder := Some j\<rparr>)"
  have "server_step X C E L (Poll_Arrive j None) s = Some ?s1" "server_step X C E L (Poll_Token j) ?s1 = Some ?s2"
      "server_step X C E L (Poll_Lock j) ?s2 = Some ?s3"
    using assms by (simp_all add: server_step_def step_poll_arrive_def step_poll_token_def step_poll_lock_def
        hm_simps stale_def)
  moreover have "\<exists>t. server_step X C E L (Poll_Collect j) ?s3 = Some t \<and>
      length (collected t) = Suc (length (collected s)) \<and> builds t = builds s \<and> mono (core t) = mono (core s)"
    using assms(1,6) by (simp add: server_step_def step_poll_collect_def hm_simps Let_def split_beta)
  ultimately show ?thesis by auto
qed

definition demo_abandoned :: "table_db Server" where
  "demo_abandoned = set_poll 0 Poll_Left ((demo_compressing 0)\<lparr>snapshot_holder := None\<rparr>)"

lemma demo_abandoned_step: "demo_step (Poll_Cancel 0) (demo_compressing 0) = Some demo_abandoned"
  by (simp add: server_step_def step_poll_cancel_def demo_abandoned_def demo_compressing_def demo_collecting_def
      demo_server_def demo_start_def hm_simps)

lemma demo_abandoned_facts:
  "stage demo_abandoned = Serving" "hm_get (polls demo_abandoned) 1 = None" "snapshot_holder demo_abandoned = None"
  "mono (core demo_abandoned) = 0" "wall (core demo_abandoned) = 0" "length (collected demo_abandoned) = 1"
  "builds demo_abandoned = []" "rate_limit_cooldown (memory demo_abandoned) = nanos_per_minute"
  "identifier_rate_limit (memory demo_abandoned) = demo_map" "attempts_snapshot (memory demo_abandoned) = None"
  "attempts_collection_started_at (memory demo_abandoned) = 0"
  "attempts_token_bucket (memory demo_abandoned) = \<lparr>tokens = 19, capacity = 20, refill_per_second = 2, last_refill = 0\<rparr>"
  by (simp_all add: demo_abandoned_def demo_compressing_def demo_collecting_def demo_server_def demo_start_def
      demo_final_def demo_system_def demo_state_def demo_map_def memory_def hm_simps)

theorem disconnects_repeat_builds:
  "\<exists>s. server_reachable reference_externals reference_codec table_engine demo_latency
      (server_boot demo_state 0 0 demo_db) s \<and> length (collected s) = 2 \<and> mono (core s) = 0 \<and> builds s = []"
proof -
  let ?boot = "server_boot demo_state 0 0 demo_db"
  let ?st = "(memory demo_abandoned)\<lparr>attempts_token_bucket :=
    \<lparr>tokens = 18, capacity = 20, refill_per_second = 2, last_refill = 0\<rparr>\<rparr>"
  have s: "server_reachable reference_externals reference_codec table_engine demo_latency ?boot demo_abandoned"
    by (rule reach_step [OF reach_step [OF demo_collecting_reachable demo_collects] demo_abandoned_step])
  have "take_attempts_token (mono (core demo_abandoned)) (memory demo_abandoned) = (True, ?st)"
    using f64_round_nat [of 19] f64_round_nat [of 18]
    by (simp add: demo_abandoned_facts take_attempts_token_def try_consume_def f64_add_def f64_mul_def f64_sub_def Let_def)
  moreover have "fst (collect_snapshot reference_externals reference_codec (wall (core demo_abandoned)) ?st) = Some demo_payload"
    using demo_payload by (simp add: demo_abandoned_facts collect_snapshot_def Let_def demo_retained)
  moreover have "attempts_snapshot ?st = None" by (simp add: demo_abandoned_facts)
  ultimately obtain t where run: "guarded_run demo_step
      [Poll_Arrive 1 None, Poll_Token 1, Poll_Lock 1, Poll_Collect 1] demo_abandoned = Some t"
    and t: "length (collected t) = Suc (length (collected demo_abandoned))" "builds t = builds demo_abandoned"
      "mono (core t) = mono (core demo_abandoned)"
    using next_poll_collects [of demo_abandoned 1 ?st reference_externals reference_codec demo_payload table_engine demo_latency]
      demo_abandoned_facts(1-3) by blast
  from guarded_run_reach [OF s run] t show ?thesis
    by (intro exI [of _ t]) (simp add: demo_abandoned_facts)
qed

end
