(* ===== verification/System_Refinement.thy ===== *)
theory System_Refinement
  imports System_Safety
begin

text \<open>
  The interleaved system and the handlers. A request that nothing interrupts runs through its
  events to the result of the sequential handler (\<open>fetch_secret\<close>, \<open>store_secret\<close>); and from any
  state a request gets to its end by its own events, without waiting for another request.
\<close>

section \<open>Uninterrupted requests\<close>

text \<open>The request an event belongs to.\<close>

fun event_of :: "event \<Rightarrow> nat option" where
  "event_of (Tick _) = None"
| "event_of (Arrive_Fetch j _ _) = Some j"
| "event_of (Arrive_Store j _) = Some j"
| "event_of (Lookup_Token j) = Some j"
| "event_of (Admit j) = Some j"
| "event_of (Permit_Granted j) = Some j"
| "event_of (Permit_Timed_Out j) = Some j"
| "event_of (Timeout_Cleanup j) = Some j"
| "event_of (Cancel j _) = Some j"
| "event_of (Run_Deferred j) = Some j"
| "event_of (Query j) = Some j"
| "event_of (Finalize j) = Some j"
| "event_of (Answer j) = Some j"
| "event_of (Store_Token j _) = Some j"
| "event_of (Store_Permit j) = Some j"
| "event_of (Store_Permit_Timed_Out j) = Some j"
| "event_of (Store_Write j) = Some j"
| "event_of (Store_Answer j) = Some j"
| "event_of (Sweep _) = None"
| "event_of (Snapshot_Retain _) = None"

definition outcome :: "Response option \<Rightarrow> phase" where
  "outcome r = (case r of None \<Rightarrow> Panicked | Some response \<Rightarrow> Responded response)"

text \<open>The state after request \<open>j\<close> has run alone, by its own events.\<close>

definition runs_to ::
  "externals \<Rightarrow> 'db engine \<Rightarrow> nat \<Rightarrow> 'db System \<Rightarrow> phase \<Rightarrow> AppState \<Rightarrow> 'db \<Rightarrow> bool" where
  "runs_to X E j s p st d \<longleftrightarrow>
     (\<exists>es t. list_all (\<lambda>e. event_of e = Some j) es \<and> system_run X E es s = Some t \<and>
        jobs t = hm_insert j p (jobs s) \<and> app t = st \<and> db t = d)"

lemma runs_toI:
  "system_run X E es s = Some t \<Longrightarrow> jobs t = hm_insert j p (jobs s) \<Longrightarrow> app t = st \<Longrightarrow> db t = d \<Longrightarrow>
     list_all (\<lambda>e. event_of e = Some j) es \<Longrightarrow> runs_to X E j s p st d"
  unfolding runs_to_def by blast

lemma runs_to_step:
  assumes "system_step X E e s = Some t" "jobs t = hm_insert j q (jobs s)" "runs_to X E j t p st d"
    and "event_of e = Some j"
  shows "runs_to X E j s p st d"
proof -
  from assms(3) obtain es u where "system_run X E es t = Some u" "jobs u = hm_insert j p (jobs t)"
      "app u = st" "db u = d" "list_all (\<lambda>e. event_of e = Some j) es"
    by (auto simp: runs_to_def)
  then show ?thesis using assms(1,2,4) by (intro runs_toI [of X E "e # es" s u]) simp_all
qed

lemma runs_to_refl: "hm_get (jobs s) j = Some p \<Longrightarrow> runs_to X E j s p (app s) (db s)"
  by (intro runs_toI [of X E "[]" s s]) (simp_all add: hm_insert_same)

lemma permit_round_trip: "0 < database_semaphore st \<Longrightarrow> release_permit (acquire_permit st) = st"
  by (simp add: release_permit_def acquire_permit_def)

lemma ticket_runs:
  assumes j: "hm_get (jobs s) j = Some (Permit_Wait tk)"
    and permit: "permit \<longrightarrow> 0 < database_semaphore (app s)"
    and r: "run_ticket E permit tk (app s) (db s) = (response, st', d')"
  shows "runs_to X E j s (Responded response) st' d'"
proof (cases permit)
  case True
  then obtain result where l: "blocking_lookup E (tk_is_trash tk) (tk_candidate tk) (db s) = (result, d')"
      "st' = finalize_ticket tk result (app s)" "response = fetch_answer st' tk result"
    using r by (auto simp: run_ticket_def Let_def split: prod.splits)
  show ?thesis
    by (rule runs_to_step [of X E "Permit_Granted j"], (simp add: step_permit_def j True permit; fail),
        (simp add: set_job_def; fail),
        rule runs_to_step [of X E "Query j"], (simp add: step_query_def set_job_def hm_simps l; fail),
        (simp add: set_job_def; fail),
        rule runs_to_step [of X E "Finalize j"], (simp add: step_finalize_def set_job_def hm_simps; fail),
        (simp add: set_job_def; fail),
        rule runs_to_step [of X E "Answer j"], (simp add: step_answer_def set_job_def hm_simps; fail),
        (simp add: set_job_def; fail))
      (use True permit l in \<open>auto simp: set_job_def hm_simps permit_round_trip intro!: runs_toI [of X E "[]"]\<close>)
next
  case False
  have r': "response = database_busy_response" "st' = permit_timeout_step tk (app s)" "d' = db s"
    using r False by (auto simp: run_ticket_def)
  show ?thesis
  proof (cases "tk_is_new tk")
    case True
    then show ?thesis
      using j r'
      by (intro runs_toI [of X E "[Permit_Timed_Out j, Timeout_Cleanup j]" s
            "set_job j (Responded database_busy_response) (s\<lparr>app := release_ticket tk (app s)\<rparr>)"])
        (simp_all add: step_permit_timed_out_def step_timeout_cleanup_def set_job_def hm_simps
          permit_timeout_step_def)
  next
    case False
    then show ?thesis
      using j r'
      by (intro runs_toI [of X E "[Permit_Timed_Out j]" s "set_job j (Responded database_busy_response) s"])
        (simp_all add: step_permit_timed_out_def set_job_def permit_timeout_step_def)
  qed
qed

text \<open>The handler for \<open>/fetch\<close> and \<open>/trash\<close> is the run of its events.\<close>

lemma fetch_runs:
  assumes j: "hm_get (jobs s) j = None" and permit: "permit \<longrightarrow> 0 < database_semaphore (app s)"
    and r: "fetch_secret X E tr request (mono s) (wall s) permit (app s) (db s) = (response, st', d')"
  shows "runs_to X E j s (outcome response) st' d'"
proof -
  let ?s1 = "set_job j (Received request tr) s"
  obtain e st1 where e: "fetch_entry_step X request (mono s) (app s) = (e, st1)" by fastforce
  have "runs_to X E j ?s1 (outcome response) st' d'"
  proof (cases e)
    case (Entry_Response response')
    then show ?thesis
      using r e
      by (intro runs_toI [of X E "[Lookup_Token j]" ?s1 "set_job j (Responded response') (?s1\<lparr>app := st1\<rparr>)"])
        (auto simp: fetch_secret_def step_lookup_token_def set_job_def hm_simps outcome_def)
  next
    case Entry_Panic
    then show ?thesis
      using r e
      by (intro runs_toI [of X E "[Lookup_Token j]" ?s1 "set_job j Panicked (?s1\<lparr>app := st1\<rparr>)"])
        (auto simp: fetch_secret_def step_lookup_token_def set_job_def hm_simps outcome_def)
  next
    case (Entry_Admit i c)
    obtain a st2 where a: "admit_state st1 i c (wall s) = (a, st2)" by fastforce
    let ?p = "phase_after_admission i c (wall s) tr a"
    let ?s3 = "set_job j ?p (?s1\<lparr>app := st2\<rparr>)"
    have run: "system_run X E [Lookup_Token j, Admit j] ?s1 = Some ?s3"
      using e a Entry_Admit by (simp add: step_lookup_token_def step_admit_def set_job_def hm_simps)
    show ?thesis
    proof (cases "\<exists>tk. ?p = Permit_Wait tk")
      case False
      then have "outcome response = ?p" "st' = st2" "d' = db s"
        using r e a Entry_Admit
        by (auto simp: fetch_secret_def phase_after_admission_def outcome_def
            split: admit_result.splits option.splits prod.splits)
      then show ?thesis
        using run by (intro runs_toI [of X E "[Lookup_Token j, Admit j]" ?s1 ?s3]) (simp_all add: set_job_def)
    next
      case True
      then obtain tk where tk: "?p = Permit_Wait tk" by blast
      have resp: "\<exists>q. run_ticket E permit tk st2 (db s) = (q, st', d') \<and> response = Some q"
        using r e a Entry_Admit tk
        by (auto simp: fetch_secret_def phase_after_admission_def Let_def
            split: admit_result.splits option.splits prod.splits)
      then obtain q where q: "run_ticket E permit tk st2 (db s) = (q, st', d')" "response = Some q" by blast
      have "database_semaphore st2 = database_semaphore (app s)"
        using e a fetch_entry_frame(3) [OF e] admit_state_sel(6) [of st1 i c "wall s"] by simp
      then have "runs_to X E j ?s3 (Responded q) st' d'"
        using q permit tk by (intro ticket_runs [where tk = tk and permit = permit]) (simp_all add: set_job_def hm_simps)
      then obtain es t where "system_run X E es ?s3 = Some t" "jobs t = hm_insert j (Responded q) (jobs ?s3)"
          "app t = st'" "db t = d'" "list_all (\<lambda>e. event_of e = Some j) es"
        by (auto simp: runs_to_def)
      then show ?thesis
        using run q(2)
        by (intro runs_toI [of X E "[Lookup_Token j, Admit j] @ es" ?s1 t])
          (simp_all only: guarded_run_append, simp_all add: set_job_def outcome_def)
    qed
  qed
  then show ?thesis
    using j by (intro runs_to_step [of X E "Arrive_Fetch j request tr" s ?s1]) (simp_all add: step_arrive_def set_job_def)
qed

text \<open>The handler for \<open>/store\<close> is the run of its events.\<close>

lemma store_runs:
  assumes j: "hm_get (jobs s) j = None" and permit: "permit \<longrightarrow> 0 < database_semaphore (app s)"
    and r: "store_secret X E request (mono s) created permit (app s) (db s) = (response, st', d')"
  shows "runs_to X E j s (Responded response) st' d'"
proof -
  let ?s1 = "set_job j (Store_Received request) s"
  obtain e st1 where e: "store_entry_step X request (mono s) created (app s) = (e, st1)" by fastforce
  have sem: "permit \<longrightarrow> 0 < database_semaphore st1"
    using permit store_entry_frame(3) [OF e] by simp
  have "runs_to X E j ?s1 (Responded response) st' d'"
  proof (cases e)
    case (Inl response')
    then show ?thesis
      using r e
      by (intro runs_toI [of X E "[Store_Token j created]" ?s1 "set_job j (Responded response') (?s1\<lparr>app := st1\<rparr>)"])
        (auto simp: store_secret_def step_store_token_def set_job_def hm_simps)
  next
    case (Inr key)
    show ?thesis
    proof (cases permit)
      case True
      obtain b where b: "blocking_write E key (db s) = (b, d')" "response = store_answer b" "st' = st1"
        using r e Inr True by (auto simp: store_secret_def split: prod.splits)
      show ?thesis
        using e Inr b True sem
        by (intro runs_toI [of X E "[Store_Token j created, Store_Permit j, Store_Write j, Store_Answer j]" ?s1
              "set_job j (Responded response) (?s1\<lparr>app := st1, db := d'\<rparr>)"])
          (simp_all add: step_store_token_def step_store_permit_def step_store_write_def
            step_store_answer_def set_job_def hm_simps permit_round_trip)
    next
      case False
      then show ?thesis
        using r e Inr
        by (intro runs_toI [of X E "[Store_Token j created, Store_Permit_Timed_Out j]" ?s1
              "set_job j (Responded database_busy_response) (?s1\<lparr>app := st1\<rparr>)"])
          (simp_all add: store_secret_def step_store_token_def step_store_permit_timed_out_def set_job_def hm_simps)
    qed
  qed
  then show ?thesis
    using j by (intro runs_to_step [of X E "Arrive_Store j request" s ?s1]) (simp_all add: step_arrive_def set_job_def)
qed

section \<open>Progress\<close>

text \<open>How many events a request needs at most to end, and whether it has ended.\<close>

fun phase_rank :: "phase \<Rightarrow> nat" where
  "phase_rank (Received _ _) = 4"
| "phase_rank (Stamped _ _ _ _) = 3"
| "phase_rank (Permit_Wait _) = 2"
| "phase_rank (Permit_Timeout _) = 1"
| "phase_rank (Deferred_Removal _) = 1"
| "phase_rank (Querying _ _) = 3"
| "phase_rank (Finalizing _ _ _) = 2"
| "phase_rank (Answering _ _) = 1"
| "phase_rank (Store_Received _) = 2"
| "phase_rank (Store_Permit_Wait _) = 1"
| "phase_rank (Store_Writing _ _) = 2"
| "phase_rank (Store_Answering _) = 1"
| "phase_rank (Responded _) = 0"
| "phase_rank Panicked = 0"
| "phase_rank Gone = 0"

lemma phase_rank_0_iff: "phase_rank p = 0 \<longleftrightarrow> (\<exists>r. p = Responded r) \<or> p = Panicked \<or> p = Gone"
  by (cases p) auto

lemma phase_rank_le: "phase_rank p \<le> 4"
  by (cases p) auto

lemma phase_after_admission_rank: "phase_rank (phase_after_admission i c r tr a) < 3"
  by (auto simp: phase_after_admission_def split: admit_result.splits option.splits)

text \<open>
  The lookup has waited for the lock of the map for longer than the \<open>TimeoutLayer\<close> allows. Only the
  passing of time brings a request there.
\<close>

definition timed_out :: "'db System \<Rightarrow> nat \<Rightarrow> bool" where
  "timed_out s j \<longleftrightarrow>
     (case hm_get (jobs s) j of
        Some (Stamped _ _ requested_at _) \<Rightarrow> REQUEST_TIMEOUT < wall s - requested_at
      | _ \<Rightarrow> False)"

lemma admission_not_stamped: "phase_after_admission i c r tr a \<noteq> Stamped i' c' r' tr'"
  by (auto simp: phase_after_admission_def split: admit_result.splits option.splits)

lemma step_timed_out:
  assumes "system_step X E e s = Some t" "event_of e \<noteq> None" "timed_out t j"
  shows "timed_out s j"
proof (cases e)
  case (Admit k)
  then show ?thesis
    using assms admission_not_stamped by (auto simp: step_admit_def timed_out_def set_job_def hm_simps Let_def
        split_beta split: option.splits phase.splits if_splits)
next
  case (Cancel k b)
  then show ?thesis
    using assms by (auto simp: step_cancel_def drop_guard_def timed_out_def set_job_def hm_simps
        split: option.splits phase.splits bool.splits if_splits)
qed (use assms in \<open>auto simp: REQUEST_TIMEOUT_def step_arrive_def step_permit_def step_permit_timed_out_def
    step_timeout_cleanup_def step_run_deferred_def step_query_def step_finalize_def step_answer_def
    step_lookup_token_def step_store_token_def step_store_permit_def step_store_permit_timed_out_def
    step_store_write_def step_store_answer_def timed_out_def set_job_def hm_simps Let_def split_beta
    split: option.splits phase.splits if_splits fetch_entry.splits sum.splits\<close>)

text \<open>
  One event of the request itself brings it closer to its end, and it is no cancellation unless the
  timeout has passed.
\<close>

definition moves_on :: "externals \<Rightarrow> 'db engine \<Rightarrow> nat \<Rightarrow> 'db System \<Rightarrow> phase \<Rightarrow> event \<Rightarrow> bool" where
  "moves_on X E j s p e \<longleftrightarrow>
     ((\<forall>b. e = Cancel j b \<longrightarrow> timed_out s j) \<and>
      (\<exists>t q. event_of e = Some j \<and> system_step X E e s = Some t \<and> hm_get (jobs t) j = Some q \<and>
        phase_rank q < phase_rank p))"

lemma own_event_enabled:
  assumes j: "hm_get (jobs s) j = Some p" and p: "0 < phase_rank p"
  shows "\<exists>e. moves_on X E j s p e"
proof (cases p)
  case (Received request tr)
  then have "moves_on X E j s p (Lookup_Token j)"
    using j by (simp add: moves_on_def step_lookup_token_def Let_def split_beta hm_simps split: fetch_entry.splits)
  then show ?thesis ..
next
  case (Stamped i c r tr)
  then have "moves_on X E j s p (if wall s - r \<le> REQUEST_TIMEOUT then Admit j else Cancel j False)"
    using j phase_after_admission_rank
    by (simp add: moves_on_def timed_out_def step_admit_def step_cancel_def Let_def split_beta hm_simps)
  then show ?thesis ..
next
  case (Permit_Wait tk)
  then have "moves_on X E j s p (Permit_Timed_Out j)"
    using j by (simp add: moves_on_def step_permit_timed_out_def hm_simps)
  then show ?thesis ..
next
  case (Permit_Timeout tk)
  then have "moves_on X E j s p (Timeout_Cleanup j)"
    using j by (simp add: moves_on_def step_timeout_cleanup_def hm_simps)
  then show ?thesis ..
next
  case (Deferred_Removal tk)
  then have "moves_on X E j s p (Run_Deferred j)"
    using j by (simp add: moves_on_def step_run_deferred_def hm_simps)
  then show ?thesis ..
next
  case (Querying tk b)
  then have "moves_on X E j s p (Query j)"
    using j by (simp add: moves_on_def step_query_def Let_def split_beta hm_simps)
  then show ?thesis ..
next
  case (Finalizing tk r b)
  then have "moves_on X E j s p (Finalize j)"
    using j by (simp add: moves_on_def step_finalize_def hm_simps)
  then show ?thesis ..
next
  case (Answering tk r)
  then have "moves_on X E j s p (Answer j)"
    using j by (simp add: moves_on_def step_answer_def hm_simps)
  then show ?thesis ..
next
  case (Store_Received request)
  then have "moves_on X E j s p (Store_Token j [])"
    using j by (simp add: moves_on_def step_store_token_def Let_def split_beta hm_simps split: sum.splits)
  then show ?thesis ..
next
  case (Store_Permit_Wait key)
  then have "moves_on X E j s p (Store_Permit_Timed_Out j)"
    using j by (simp add: moves_on_def step_store_permit_timed_out_def hm_simps)
  then show ?thesis ..
next
  case (Store_Writing key b)
  then have "moves_on X E j s p (Store_Write j)"
    using j by (simp add: moves_on_def step_store_write_def Let_def split_beta hm_simps)
  then show ?thesis ..
next
  case (Store_Answering r)
  then have "moves_on X E j s p (Store_Answer j)"
    using j by (simp add: moves_on_def step_store_answer_def hm_simps)
  then show ?thesis ..
qed (use p in simp_all)

lemma own_events_finish:
  "hm_get (jobs s) j = Some p \<Longrightarrow> \<exists>es t q.
     (\<forall>e\<in>set es. event_of e = Some j \<and> (\<forall>b. e = Cancel j b \<longrightarrow> timed_out s j)) \<and> length es \<le> phase_rank p \<and>
     system_run X E es s = Some t \<and> hm_get (jobs t) j = Some q \<and> phase_rank q = 0"
proof (induction "phase_rank p" arbitrary: s p rule: less_induct)
  case less
  show ?case
  proof (cases "phase_rank p = 0")
    case True
    then show ?thesis using less.prems by (intro exI [of _ "[]"]) simp
  next
    case False
    then obtain e t q where e: "event_of e = Some j" "\<forall>b. e = Cancel j b \<longrightarrow> timed_out s j" "system_step X E e s = Some t"
        "hm_get (jobs t) j = Some q" "phase_rank q < phase_rank p"
      using own_event_enabled [OF less.prems, of X E] by (auto simp: moves_on_def)
    have late: "timed_out t j \<longrightarrow> timed_out s j" using step_timed_out [OF e(3)] e(1) by simp
    from less.hyps [OF e(5,4)] obtain es u q' where
      "\<forall>e\<in>set es. event_of e = Some j \<and> (\<forall>b. e = Cancel j b \<longrightarrow> timed_out t j)" "length es \<le> phase_rank q" "system_run X E es t = Some u"
      "hm_get (jobs u) j = Some q'" "phase_rank q' = 0"
      by blast
    with e late show ?thesis by (intro exI [of _ "e # es"] exI [of _ u] exI [of _ q']) auto
  qed
qed

end
