(* ===== verification/Secrets.thy ===== *)
theory Secrets
  imports Scenario
begin

text \<open>
  The secrets behind the handlers: what \<open>/store\<close>, \<open>/fetch\<close> and \<open>/trash\<close> do to the table, for any
  engine with the documented behaviour of SQLite (the locale \<open>sqlite\<close>), and how a pair of
  credentials determines the row.
\<close>

section \<open>The blocking closures\<close>

context sqlite
begin

lemma blocking_lookup_view:
  assumes "blocking_lookup E tr k d = (r, d')"
  shows "case r of Inl _ \<Rightarrow> view d' = view d
    | Inr found \<Rightarrow> found = view d k \<and> view d' = (if tr then (view d)(k := None) else view d)"
proof (cases "establish E d")
  case None
  then show ?thesis using assms by (auto simp: blocking_lookup_def establish_connection_def)
next
  case (Some d1)
  note v1 = establish_view [OF Some]
  show ?thesis
  proof (cases tr)
    case True
    obtain x d2 where t: "read_and_trash_secret_by_id E k d1 = (x, d2)" by fastforce
    then have "case x of Inl _ \<Rightarrow> view d2 = view d1 | Inr f \<Rightarrow> f = view d1 k \<and> view d2 = (view d1)(k := None)"
      using store.trash_done [of k d1] store.trash_failed [of k d1] by (cases x) simp_all
    then show ?thesis
      using assms Some True t v1 by (cases x) (auto simp: blocking_lookup_def establish_connection_def)
  next
    case False
    then show ?thesis
      using assms Some v1 store.get_row [of k d1]
      by (cases "read_secret_by_id E k d1") (auto simp: blocking_lookup_def establish_connection_def)
  qed
qed

lemma blocking_write_view:
  assumes "blocking_write E s d = (r, d')"
  shows "view d' = (if r = Some True \<and> view d (sec_id s) = None then (view d)(sec_id s \<mapsto> s) else view d)"
proof (cases "establish E d")
  case None
  then show ?thesis using assms by (auto simp: blocking_write_def establish_connection_def)
next
  case (Some d1)
  then show ?thesis
    using assms establish_view [OF Some] store.put_done [of s d1] store.put_failed [of s d1]
    by (cases "write_secret E s d1"; cases "fst (write_secret E s d1)")
      (auto simp: blocking_write_def establish_connection_def split: if_splits)
qed

end

section \<open>The outcomes of a lookup\<close>

lemma admit_rejected_status:
  "fst (admit cd a b i c now m) = Rejected r \<Longrightarrow> status r = TOO_MANY_REQUESTS \<or> status r = SERVICE_UNAVAILABLE"
  by (auto simp: admit_def decide_def rate_limited_def Let_def split_beta
      split: if_splits option.splits CandidateState.splits)

lemma entry_response_status:
  "fetch_entry_step X request now st = (Entry_Response r, st') \<Longrightarrow>
     status r = BAD_REQUEST \<or> status r = SERVICE_UNAVAILABLE"
  by (auto simp: fetch_entry_step_def fetch_validate_def Let_def split_beta
      split: sum.splits option.splits prod.splits if_splits)

lemma entry_admit:
  "fetch_entry_step X request now st = (Entry_Admit i c, st') \<Longrightarrow>
     c = generate_secret_id X (to_lowercase X (fs_identifier request)) (to_lowercase X (fs_authentication_key request))"
  by (auto simp: fetch_entry_step_def fetch_validate_def Let_def split_beta
      split: sum.splits option.splits prod.splits if_splits)

abbreviation credentials_id :: "externals \<Rightarrow> string \<Rightarrow> string \<Rightarrow> string" where
  "credentials_id X identifier authentication_key \<equiv>
     generate_secret_id X (to_lowercase X identifier) (to_lowercase X authentication_key)"

text \<open>A request ends early, without the database, or with one lookup of its credentials.\<close>

lemma fetch_secret_cases:
  assumes "fetch_secret X E tr request now r_at permit st d = (response, st', d')"
  obtains (Early) "d' = d"
      "\<And>r. response = Some r \<Longrightarrow> status r \<in> {BAD_REQUEST, TOO_MANY_REQUESTS, SERVICE_UNAVAILABLE}"
    | (Looked_Up) tk result where
      "tk_is_trash tk = tr"
      "blocking_lookup E tr (credentials_id X (fs_identifier request) (fs_authentication_key request)) d = (result, d')"
      "response = Some (fetch_answer st' tk result)"
proof -
  obtain e st1 where e: "fetch_entry_step X request now st = (e, st1)" by fastforce
  show ?thesis
  proof (cases e)
    case (Entry_Response r)
    have "status r = BAD_REQUEST \<or> status r = SERVICE_UNAVAILABLE"
      using e Entry_Response by (simp add: entry_response_status)
    then show ?thesis using assms e Entry_Response by (intro Early) (auto simp: fetch_secret_def)
  next
    case Entry_Panic
    then show ?thesis using assms e by (intro Early) (auto simp: fetch_secret_def)
  next
    case (Entry_Admit i c)
    obtain a st2 where a: "admit_state st1 i c r_at = (a, st2)" by fastforce
    show ?thesis
    proof (cases a)
      case (Rejected r)
      have "fst (admit_state st1 i c r_at) = Rejected r" using a Rejected by simp
      then have "status r = TOO_MANY_REQUESTS \<or> status r = SERVICE_UNAVAILABLE"
        by (simp add: admit_rejected_status)
      then show ?thesis using assms e Entry_Admit a Rejected by (intro Early) (auto simp: fetch_secret_def)
    next
      case AdmitPanic
      then show ?thesis using assms e Entry_Admit a by (intro Early) (auto simp: fetch_secret_def)
    next
      case (Admitted adm)
      show ?thesis
      proof (cases "make_ticket i c r_at tr adm")
        case None
        then show ?thesis
          using assms e Entry_Admit a Admitted by (intro Early) (auto simp: fetch_secret_def pending_response_def)
      next
        case (Some tk)
        then have tk: "tk_is_trash tk = tr" "tk_candidate tk = c"
          by (auto simp: make_ticket_def split: Admission.splits)
        obtain response' where run: "run_ticket E permit tk st2 d = (response', st', d')" "response = Some response'"
          using assms e Entry_Admit a Admitted Some by (auto simp: fetch_secret_def Let_def split: prod.splits)
        show ?thesis
        proof (cases permit)
          case False
          then show ?thesis using run by (intro Early) (auto simp: run_ticket_def database_busy_response_def)
        next
          case True
          obtain result d2 where l: "blocking_lookup E tr c d = (result, d2)" by fastforce
          then show ?thesis
            using run True tk e Entry_Admit entry_admit
            by (intro Looked_Up [of tk result]) (auto simp: run_ticket_def Let_def)
        qed
      qed
    qed
  qed
qed

text \<open>The statuses of an answer, by the result of the lookup.\<close>

lemma fetch_answer_cases:
  "status (fetch_answer st tk result) =
     (case result of Inl _ \<Rightarrow> INTERNAL_SERVER_ERROR
      | Inr None \<Rightarrow> UNAUTHORIZED
      | Inr (Some _) \<Rightarrow> (if tk_is_trash tk then ACCEPTED else OK))"
  "body (fetch_answer st tk (Inr (Some key))) = Released key (tk_status tk)"
  by (auto simp: fetch_answer_def internal_error_response_def split: sum.splits option.splits FinalizerError.splits)

lemma store_secret_cases:
  assumes "store_secret X E request now created permit st d = (r, st', d')"
  obtains (Early) "d' = d" "status r \<in> {BAD_REQUEST, SERVICE_UNAVAILABLE}"
    | (Written) key result where
      "sec_id key = credentials_id X (ss_identifier request) (ss_authentication_key request)"
      "sec_encrypted_secret key = ss_encrypted_secret request" "sec_created_at key = created"
      "blocking_write E key d = (result, d')" "r = store_answer result"
proof -
  obtain e st1 where e: "store_entry_step X request now created st = (e, st1)" by fastforce
  show ?thesis
  proof (cases e)
    case (Inl r')
    then have "status r' = BAD_REQUEST \<or> status r' = SERVICE_UNAVAILABLE"
      using e by (auto simp: store_entry_step_def store_validate_def Let_def split_beta split: sum.splits if_splits)
    then show ?thesis using assms e Inl by (intro Early) (auto simp: store_secret_def)
  next
    case (Inr key)
    then have key: "sec_id key = credentials_id X (ss_identifier request) (ss_authentication_key request)"
        "sec_encrypted_secret key = ss_encrypted_secret request" "sec_created_at key = created"
      using e by (auto simp: store_entry_step_def store_validate_def Let_def split_beta split: sum.splits if_splits)
    show ?thesis
    proof (cases permit)
      case False
      then show ?thesis using assms e Inr by (intro Early) (auto simp: store_secret_def database_busy_response_def)
    next
      case True
      obtain result d2 where w: "blocking_write E key d = (result, d2)" by fastforce
      then show ?thesis
        using assms e Inr True key by (intro Written [of key result]) (auto simp: store_secret_def)
    qed
  qed
qed

lemma store_answer_created: "status (store_answer result) = CREATED \<longleftrightarrow> result = Some True"
  by (simp add: store_answer_def internal_error_response_def split: option.splits bool.splits)

section \<open>Properties of the stored secrets\<close>

text \<open>
  C17. Storing never overwrites: whatever \<open>/store\<close> answers, every row that exists is kept as it
  is, no row but the one of the given credentials appears, and when the answer is not \<open>201\<close> the
  table is unchanged.
\<close>

theorem store_never_overwrites:
  assumes "sqlite E view saved" "store_secret X E request now created permit st d = (r, st', d')"
  shows "(\<forall>k row. view d k = Some row \<longrightarrow> view d' k = Some row) \<and>
    (\<forall>k. k \<noteq> credentials_id X (ss_identifier request) (ss_authentication_key request) \<longrightarrow> view d' k = view d k) \<and>
    (status r \<noteq> CREATED \<longrightarrow> view d' = view d)"
  using assms(2)
proof (cases rule: store_secret_cases)
  case (Written key result)
  then show ?thesis
    using sqlite.blocking_write_view [OF assms(1) Written(4)] by (auto simp: store_answer_created split: if_splits)
qed simp

text \<open>
  What an observer who only sees whether the database works could tell apart: both connections open,
  or neither does, and each insert statement fails on both or on neither, whatever number of rows it
  reports.
\<close>

definition same_health :: "'db engine \<Rightarrow> 'db \<Rightarrow> 'db \<Rightarrow> bool" where
  "same_health E d e \<longleftrightarrow>
     (case (establish E d, establish E e) of
        (None, None) \<Rightarrow> True
      | (Some d1, Some e1) \<Rightarrow>
          (\<forall>key. isl (fst (insert_on_conflict_do_nothing E key d1)) =
             isl (fst (insert_on_conflict_do_nothing E key e1)))
      | _ \<Rightarrow> False)"

lemma same_health_write:
  assumes "same_health E d e"
  shows "fst (blocking_write E key d) = fst (blocking_write E key e)"
proof -
  have "fst (write_secret E key a) = (\<not> isl (fst (insert_on_conflict_do_nothing E key a)))" for a
    by (simp add: write_secret_def split: prod.splits sum.splits)
  with assms show ?thesis
    by (auto simp: same_health_def blocking_write_def establish_connection_def Let_def split_beta split: option.splits)
qed

text \<open>
  C18. \<open>/store\<close> is no oracle: the answer and the server's memory after it are the same whatever the
  table holds, a row for these very credentials or none, as long as the database works equally well.
\<close>

theorem store_gives_no_signal:
  assumes "same_health E d e" "store_secret X E request now created permit st d = (r, st', d')"
  shows "\<exists>e'. store_secret X E request now created permit st e = (r, st', e')"
  using assms(2) same_health_write [OF assms(1)]
  by (auto simp: store_secret_def Let_def split_beta split: prod.splits sum.splits if_splits)

text \<open>
  C15. The round trip of a secret: after a \<open>201\<close> for credentials without a row, a lookup with the
  same credentials, by \<open>/fetch\<close> or \<open>/trash\<close>, never answers that they are wrong, and when it
  succeeds it releases exactly the ciphertext that was stored.
\<close>

theorem store_then_fetch:
  assumes "sqlite E view saved"
    and "store_secret X E request now created permit st d = (r, st1, d1)" "status r = CREATED"
    and "view d (credentials_id X (ss_identifier request) (ss_authentication_key request)) = None"
    and "fetch_secret X E tr \<lparr>fs_identifier = ss_identifier request, fs_authentication_key = ss_authentication_key request\<rparr>
      now' r_at permit' st' d1 = (Some answer, st2, d2)"
  shows "status answer \<noteq> UNAUTHORIZED \<and>
    (status answer = OK \<or> status answer = ACCEPTED \<longrightarrow>
      (\<exists>row s. body answer = Released row s \<and> sec_encrypted_secret row = ss_encrypted_secret request))"
proof -
  let ?id = "credentials_id X (ss_identifier request) (ss_authentication_key request)"
  from assms(2) have row: "\<exists>row. view d1 ?id = Some row \<and> sec_encrypted_secret row = ss_encrypted_secret request"
  proof (cases rule: store_secret_cases)
    case Early
    then show ?thesis using assms(3) by auto
  next
    case (Written key result)
    then show ?thesis
      using sqlite.blocking_write_view [OF assms(1) Written(4)] assms(3,4) by (simp add: store_answer_created)
  qed
  from assms(5) show ?thesis
  proof (cases rule: fetch_secret_cases)
    case Early
    then show ?thesis using Early(2) [of answer] by auto
  next
    case (Looked_Up tk result)
    then show ?thesis
      using row sqlite.blocking_lookup_view [OF assms(1) Looked_Up(2)]
      by (cases result) (auto simp: fetch_answer_cases)
  qed
qed

text \<open>
  C16. \<open>/trash\<close> releases a row and deletes it in one transaction: on \<open>202\<close> the released row was the
  one stored and only it is gone; on any other answer, and on every \<open>/fetch\<close>, no row changes.
\<close>

theorem trash_releases_and_deletes:
  assumes "sqlite E view saved" "fetch_secret X E tr request now r_at permit st d = (response, st', d')"
  shows "if \<exists>answer. response = Some answer \<and> status answer = ACCEPTED
    then tr \<and> (\<exists>answer row s. response = Some answer \<and> body answer = Released row s \<and>
        view d (credentials_id X (fs_identifier request) (fs_authentication_key request)) = Some row \<and>
        view d' = (view d)(credentials_id X (fs_identifier request) (fs_authentication_key request) := None))
    else view d' = view d"
  using assms(2)
proof (cases rule: fetch_secret_cases)
  case Early
  then show ?thesis by auto
next
  case (Looked_Up tk result)
  note v = sqlite.blocking_lookup_view [OF assms(1) Looked_Up(2)]
  show ?thesis
  proof (cases "\<exists>row. result = Inr (Some row)")
    case True
    then obtain row where row: "result = Inr (Some row)" by blast
    then have "view d (credentials_id X (fs_identifier request) (fs_authentication_key request)) = Some row"
      using v by simp
    then show ?thesis using v Looked_Up(1,3) row by (simp add: fetch_answer_cases)
  next
    case False
    then have "view d' = view d" using v by (auto split: sum.splits)
    moreover have "status (fetch_answer st' tk result) \<noteq> ACCEPTED"
      using False by (auto simp: fetch_answer_cases split: sum.splits option.splits)
    ultimately show ?thesis using Looked_Up(3) by simp
  qed
qed

section \<open>Credentials\<close>

text \<open>
  The case of the hex digits does not matter: identifier and authentication key in upper and
  in lower case are the same credentials, for \<open>/fetch\<close>, \<open>/trash\<close> and \<open>/store\<close>.
\<close>

lemma credentials_case_insensitive:
  assumes "is_hex identifier" "is_hex authentication_key"
  shows "fetch_validate X \<lparr>fs_identifier = map to_ascii_uppercase identifier,
      fs_authentication_key = map to_ascii_uppercase authentication_key\<rparr>
    = fetch_validate X \<lparr>fs_identifier = identifier, fs_authentication_key = authentication_key\<rparr> \<and>
    store_validate X st \<lparr>ss_identifier = map to_ascii_uppercase identifier,
      ss_authentication_key = map to_ascii_uppercase authentication_key, ss_encrypted_secret = secret\<rparr>
    = store_validate X st \<lparr>ss_identifier = identifier, ss_authentication_key = authentication_key,
      ss_encrypted_secret = secret\<rparr>"
proof -
  have upper: "to_lowercase X (map to_ascii_uppercase s) = to_lowercase X s" if "is_hex s" for s
  proof -
    have "is_hex (map to_ascii_lowercase (map to_ascii_uppercase s))"
      using that by (simp add: is_hex_def list_all_iff lower_upper)
    then have "is_hex (map to_ascii_uppercase s)" by (simp only: is_hex_lower)
    then show ?thesis using that by (simp add: to_lowercase_hex o_def lower_upper)
  qed
  show ?thesis
    using upper [OF assms(1)] upper [OF assms(2)] by (simp add: fetch_validate_def store_validate_def)
qed

text \<open>
  Distinct credentials name distinct rows: for validated inputs the concatenation that is
  hashed is unambiguous, so, short of a collision of the hash on the two inputs, equal row keys come
  from equal identifiers and equal authentication keys.
\<close>

lemma row_key_determines_credentials:
  assumes "hex_ok X" "is_256bits_hex_hash i" "is_256bits_hex_hash i'"
    and "generate_secret_id X i a = generate_secret_id X i' a'"
    and "sha256_digest X (i @ a) = sha256_digest X (i' @ a') \<longrightarrow> i @ a = i' @ a'"
  shows "i = i' \<and> a = a'"
proof -
  have "sha256_digest X (i @ a) = sha256_digest X (i' @ a')"
    using assms(1,4) by (metis generate_secret_id_def hex_ok_def option.inject sha256_hex_def)
  moreover have "length i = length i'"
    using assms(2,3) by (simp add: is_256bits_hex_hash_def is_length_def)
  ultimately show ?thesis using assms(5) by simp
qed

section \<open>Witnesses\<close>

definition demo_store_request :: StoreSecret where
  "demo_store_request = \<lparr>ss_identifier = replicate 64 CHR ''a'', ss_authentication_key = replicate 64 CHR ''b'',
     ss_encrypted_secret = ''QUJD''\<rparr>"

definition demo_row :: Secret where
  "demo_row = \<lparr>sec_id = demo_tag CHR ''b'', sec_created_at = ''now'', sec_encrypted_secret = ''QUJD''\<rparr>"

definition demo_stored :: AppState where
  "demo_stored = demo_state\<lparr>store_token_bucket := \<lparr>tokens = 9, capacity = 10, refill_per_second = 2, last_refill = 0\<rparr>\<rparr>"

lemma demo_lower: "k = CHR ''a'' \<or> k = CHR ''b'' \<or> k = CHR ''c'' \<Longrightarrow> to_lowercase X (replicate n k) = replicate n k"
  by (auto simp: to_lowercase_def list_all_iff is_ascii_hexdigit_ascii demo_chars)

lemma demo_store_run:
  "store_secret reference_externals table_engine demo_store_request 0 ''now'' True demo_state demo_db =
     (plain_response CREATED Null, demo_stored, demo_db\<lparr>table_rows := hm_insert (demo_tag CHR ''b'') demo_row fmempty\<rparr>)"
proof -
  have "is_base64 reference_externals ''QUJD''" by code_simp
  then have "store_validate reference_externals demo_state demo_store_request
      = Inr (replicate 64 CHR ''a'', replicate 64 CHR ''b'')"
    by (simp add: store_validate_def demo_store_request_def demo_lower demo_state_def is_256bits_hex_hash_def
        is_length_def is_hex_def list_all_iff demo_chars)
  then show ?thesis
    using f64_round_nat [of 10] f64_round_nat [of 9]
    by (simp add: store_secret_def store_entry_step_def take_store_token_def demo_state_def try_consume_def Let_def
        f64_add_def f64_mul_def f64_sub_def TokenBucket_new_def blocking_write_def establish_connection_def
        table_engine_def next_fault_def demo_db_def write_secret_def hm_simps store_answer_def demo_row_def
        demo_tag_def demo_store_request_def demo_stored_def)
qed

lemma demo_credentials: "credentials_id reference_externals (ss_identifier demo_store_request)
    (ss_authentication_key demo_store_request) = demo_tag CHR ''b''"
  by (simp add: demo_store_request_def demo_lower demo_tag_def)

theorem store_never_overwrites_witness:
  "table_view (demo_db\<lparr>table_rows := hm_insert (demo_tag CHR ''b'') demo_row fmempty\<rparr>) (demo_tag CHR ''c'')
     = table_view demo_db (demo_tag CHR ''c'')"
  using store_never_overwrites [OF table.sqlite_axioms demo_store_run] demo_tags
  by (simp add: demo_credentials del: not_None_eq)

lemma demo_trash_run:
  "\<exists>answer st' d'. fetch_secret reference_externals table_engine True (demo_request CHR ''b'') 0 0 True demo_stored
     (demo_db\<lparr>table_rows := hm_insert (demo_tag CHR ''b'') demo_row fmempty\<rparr>) = (Some answer, st', d') \<and>
     status answer = ACCEPTED"
  using f64_round_nat [of 100] f64_round_nat [of 99]
  by (simp add: fetch_secret_def demo_defs demo_validate demo_hash_eq demo_tag_def [symmetric] hm_simps demo_words
      demo_stored_def demo_state_def run_ticket_def demo_db_def read_and_trash_secret_by_id_def
      immediate_transaction_def trash_body_def)

theorem store_then_fetch_witness:
  "\<exists>answer st' d' row s. fetch_secret reference_externals table_engine True (demo_request CHR ''b'') 0 0 True demo_stored
     (demo_db\<lparr>table_rows := hm_insert (demo_tag CHR ''b'') demo_row fmempty\<rparr>) = (Some answer, st', d') \<and>
     body answer = Released row s \<and> sec_encrypted_secret row = ''QUJD''"
proof -
  obtain answer st' d' where run: "fetch_secret reference_externals table_engine True (demo_request CHR ''b'') 0 0 True
      demo_stored (demo_db\<lparr>table_rows := hm_insert (demo_tag CHR ''b'') demo_row fmempty\<rparr>) = (Some answer, st', d')"
      "status answer = ACCEPTED"
    using demo_trash_run by blast
  have req: "demo_request CHR ''b'' = \<lparr>fs_identifier = ss_identifier demo_store_request,
      fs_authentication_key = ss_authentication_key demo_store_request\<rparr>"
    by (simp add: demo_request_def demo_store_request_def)
  have "\<exists>row s. body answer = Released row s \<and> sec_encrypted_secret row = ss_encrypted_secret demo_store_request"
    using store_then_fetch [OF table.sqlite_axioms demo_store_run _ _ run(1) [unfolded req]] run(2)
    by (simp add: demo_credentials) (simp add: demo_db_def hm_simps)
  then show ?thesis using run(1) by (auto simp: demo_store_request_def)
qed

theorem trash_releases_and_deletes_witness:
  "\<exists>answer st' d'. fetch_secret reference_externals table_engine True (demo_request CHR ''b'') 0 0 True demo_stored
     (demo_db\<lparr>table_rows := hm_insert (demo_tag CHR ''b'') demo_row fmempty\<rparr>) = (Some answer, st', d') \<and>
     table_view d' = Map.empty"
proof -
  obtain answer st' d' where run: "fetch_secret reference_externals table_engine True (demo_request CHR ''b'') 0 0 True
      demo_stored (demo_db\<lparr>table_rows := hm_insert (demo_tag CHR ''b'') demo_row fmempty\<rparr>) = (Some answer, st', d')"
      "status answer = ACCEPTED"
    using demo_trash_run by blast
  have id: "credentials_id reference_externals (fs_identifier (demo_request CHR ''b''))
      (fs_authentication_key (demo_request CHR ''b'')) = demo_tag CHR ''b''"
    by (simp add: demo_request_def demo_lower demo_tag_def)
  have "table_view d' = (table_view (demo_db\<lparr>table_rows := hm_insert (demo_tag CHR ''b'') demo_row fmempty\<rparr>))
      (demo_tag CHR ''b'' := None)"
    using trash_releases_and_deletes [OF table.sqlite_axioms run(1)] run(2) by (auto simp: id)
  then have "table_view d' = Map.empty" by (auto simp: hm_simps fun_eq_iff)
  with run(1) show ?thesis by blast
qed

text \<open>The same request, to the empty table and to the table that has its row.\<close>

theorem store_gives_no_signal_witness:
  "\<exists>e'. store_secret reference_externals table_engine demo_store_request 0 ''now'' True demo_state
       (demo_db\<lparr>table_rows := hm_insert (demo_tag CHR ''b'') demo_row fmempty\<rparr>)
     = (plain_response CREATED Null, demo_stored, e')"
proof (rule store_gives_no_signal [OF _ demo_store_run])
  show "same_health table_engine demo_db (demo_db\<lparr>table_rows := hm_insert (demo_tag CHR ''b'') demo_row fmempty\<rparr>)"
    by (simp add: same_health_def table_engine_def next_fault_def demo_db_def)
qed

end
