(* ===== verification/Custody.thy ===== *)
theory Custody
  imports Secrets
begin

text \<open>
  The custody of the stored secrets under concurrency: over any run of the interleaved server of the
  theory \<open>System\<close>, with requests that fail, time out or are cancelled at any point, a row leaves the
  table only in the hands of a lookup of \<open>/trash\<close> for its own credentials.
\<close>

section \<open>What one event does to the table\<close>

text \<open>Only the two blocking closures touch the database.\<close>

lemma other_steps_frame:
  "step_tick n s = Some t \<Longrightarrow> db t = db s \<and> answers t = answers s"
  "step_arrive j p s = Some t \<Longrightarrow> db t = db s \<and> answers t = answers s"
  "step_lookup_token X j s = Some t \<Longrightarrow> db t = db s \<and> answers t = answers s"
  "step_admit j s = Some t \<Longrightarrow> db t = db s \<and> answers t = answers s"
  "step_permit j s = Some t \<Longrightarrow> db t = db s \<and> answers t = answers s"
  "step_permit_timed_out j s = Some t \<Longrightarrow> db t = db s \<and> answers t = answers s"
  "step_timeout_cleanup j s = Some t \<Longrightarrow> db t = db s \<and> answers t = answers s"
  "step_cancel j b s = Some t \<Longrightarrow> db t = db s \<and> answers t = answers s"
  "step_run_deferred j s = Some t \<Longrightarrow> db t = db s \<and> answers t = answers s"
  "step_finalize j s = Some t \<Longrightarrow> db t = db s \<and> answers t = answers s"
  "step_answer j s = Some t \<Longrightarrow> db t = db s \<and> answers t = answers s"
  "step_store_token X j c s = Some t \<Longrightarrow> db t = db s \<and> answers t = answers s"
  "step_store_permit j s = Some t \<Longrightarrow> db t = db s \<and> answers t = answers s"
  "step_store_permit_timed_out j s = Some t \<Longrightarrow> db t = db s \<and> answers t = answers s"
  "step_store_answer j s = Some t \<Longrightarrow> db t = db s \<and> answers t = answers s"
  "step_sweep n s = Some t \<Longrightarrow> db t = db s \<and> answers t = answers s"
  by (auto simp: step_tick_def step_arrive_def step_lookup_token_def step_admit_def step_permit_def
      step_permit_timed_out_def step_timeout_cleanup_def step_cancel_def drop_guard_def step_run_deferred_def
      step_finalize_def step_answer_def step_store_token_def step_store_permit_def
      step_store_permit_timed_out_def step_store_answer_def step_sweep_def set_job_def Let_def split_beta
      split: option.splits phase.splits if_splits bool.splits)

lemma other_events_frame:
  assumes "system_step X E e s = Some t" "\<And>j. e \<noteq> Query j" "\<And>j. e \<noteq> Store_Write j"
  shows "db t = db s \<and> answers t = answers s"
  using assms by (cases e) (simp_all only: system_step.simps other_steps_frame event.distinct simp_thms, blast+)

lemma system_step_rows:
  assumes "system_step X E e s = Some t"
  obtains (Same) "db t = db s" "answers t = answers s"
    | (Looked_Up) j tk attached result where "e = Query j" "hm_get (jobs s) j = Some (Querying tk attached)"
      "blocking_lookup E (tk_is_trash tk) (tk_candidate tk) (db s) = (result, db t)"
      "answers t = record_answer tk result (answers s)"
    | (Wrote) j key attached result where "e = Store_Write j" "hm_get (jobs s) j = Some (Store_Writing key attached)"
      "blocking_write E key (db s) = (result, db t)" "answers t = answers s"
proof -
  consider (query) j where "e = Query j" | (store_write) j where "e = Store_Write j"
    | (other) "\<And>j. e \<noteq> Query j" "\<And>j. e \<noteq> Store_Write j"
    by blast
  then show ?thesis
  proof cases
    case (query j)
    then obtain tk attached where j: "hm_get (jobs s) j = Some (Querying tk attached)"
      using assms by (auto simp: step_query_def split: option.splits phase.splits)
    obtain result d where "blocking_lookup E (tk_is_trash tk) (tk_candidate tk) (db s) = (result, d)" by fastforce
    then show ?thesis
      using assms query j by (intro Looked_Up [of j tk attached result]) (auto simp: step_query_def set_job_def)
  next
    case (store_write j)
    then obtain key attached where j: "hm_get (jobs s) j = Some (Store_Writing key attached)"
      using assms by (auto simp: step_store_write_def split: option.splits phase.splits)
    obtain result d where "blocking_write E key (db s) = (result, d)" by fastforce
    then show ?thesis
      using assms store_write j by (intro Wrote [of j key attached result]) (auto simp: step_store_write_def set_job_def)
  next
    case other
    then show ?thesis using other_events_frame [OF assms] Same by simp
  qed
qed

text \<open>
  \<open>since s t\<close> are the lookups answered between two states of a run, the latest first; \<open>trashed\<close> says
  that one of them was a \<open>/trash\<close> that was handed the row.
\<close>

definition since :: "'db System \<Rightarrow> 'db System \<Rightarrow> (Ticket \<times> Secret option) list" where
  "since s t = take (length (answers t) - length (answers s)) (answers t)"

definition trashed :: "string \<Rightarrow> Secret \<Rightarrow> (Ticket \<times> Secret option) list \<Rightarrow> bool" where
  "trashed k row h \<longleftrightarrow> list_ex (\<lambda>(tk, found). found = Some row \<and> tk_is_trash tk \<and> tk_candidate tk = k) h"

lemma since_append: "answers t = h @ answers s \<Longrightarrow> since s t = h"
  by (simp add: since_def)

lemma trashed_Cons [simp]:
  "trashed k row ((tk, found) # h) \<longleftrightarrow>
     found = Some row \<and> tk_is_trash tk \<and> tk_candidate tk = k \<or> trashed k row h"
  by (simp add: trashed_def)

lemma step_keeps_row:
  assumes "sqlite E view saved" "system_step X E e s = Some t" "view (db s) k = Some row"
  shows "\<exists>h. answers t = h @ answers s \<and> (view (db t) k = Some row \<or> trashed k row h)"
  using assms(2)
proof (cases rule: system_step_rows)
  case Same
  then show ?thesis using assms(3) by (intro exI [of _ "[]"]) simp
next
  case (Looked_Up j tk attached result)
  show ?thesis
  proof (cases result)
    case (Inl x)
    then show ?thesis
      using Looked_Up assms(3) sqlite.blocking_lookup_view [OF assms(1) Looked_Up(3)]
      by (intro exI [of _ "[]"]) (simp add: record_answer_def)
  next
    case (Inr found)
    then show ?thesis
      using Looked_Up assms(3) sqlite.blocking_lookup_view [OF assms(1) Looked_Up(3)]
      by (intro exI [of _ "[(tk, found)]"]) (auto simp: record_answer_def)
  qed
next
  case (Wrote j key attached result)
  then show ?thesis
    using assms(3) sqlite.blocking_write_view [OF assms(1) Wrote(3)] by (intro exI [of _ "[]"]) auto
qed

lemma reach_keeps_row:
  assumes "sqlite E view saved" "reachable X E s t" "view (db s) k = Some row"
  shows "\<exists>h. answers t = h @ answers s \<and> (view (db t) k = Some row \<or> trashed k row h)"
  using assms(2)
proof (induction rule: reach.induct)
  case reach_start
  then show ?case using assms(3) by (intro exI [of _ "[]"]) simp
next
  case (reach_step t e u)
  then obtain h where h: "answers t = h @ answers s" "view (db t) k = Some row \<or> trashed k row h" by blast
  show ?case
  proof (cases "view (db t) k = Some row")
    case True
    from step_keeps_row [OF assms(1) reach_step.hyps(2) True] h show ?thesis
      by (force simp: trashed_def)
  next
    case False
    obtain h' where "answers u = h' @ answers t"
      using reach_step.hyps(2) by (cases rule: system_step_rows) (auto simp: record_answer_def split: sum.splits)
    then show ?thesis using h False by (intro exI [of _ "h' @ h"]) (simp add: trashed_def)
  qed
qed

section \<open>Handing a secret out\<close>

fun is_write :: "event \<Rightarrow> bool" where
  "is_write (Store_Write _) = True"
| "is_write _ = False"

text \<open>How many \<open>/trash\<close> lookups of a history were handed the row of a key.\<close>

definition hand_outs :: "string \<Rightarrow> (Ticket \<times> Secret option) list \<Rightarrow> nat" where
  "hand_outs k h = length (filter (\<lambda>(tk, found). found \<noteq> None \<and> tk_is_trash tk \<and> tk_candidate tk = k) h)"

lemma hand_outs_simps [simp]:
  "hand_outs k [] = 0"
  "hand_outs k (h @ h') = hand_outs k h + hand_outs k h'"
  "hand_outs k [(tk, found)] = (if found \<noteq> None \<and> tk_is_trash tk \<and> tk_candidate tk = k then 1 else 0)"
  by (simp_all add: hand_outs_def)

lemma step_hand_outs:
  assumes "sqlite E view saved" "system_step X E e s = Some t" "\<not> is_write e"
  shows "\<exists>h. answers t = h @ answers s \<and>
    hand_outs k h + of_bool (view (db t) k \<noteq> None) = of_bool (view (db s) k \<noteq> None)"
  using assms(2)
proof (cases rule: system_step_rows)
  case Same
  then show ?thesis by (intro exI [of _ "[]"]) simp
next
  case (Looked_Up j tk attached result)
  note v = sqlite.blocking_lookup_view [OF assms(1) Looked_Up(3)]
  show ?thesis
  proof (cases result)
    case (Inl x)
    then show ?thesis using Looked_Up v by (intro exI [of _ "[]"]) (simp add: record_answer_def)
  next
    case (Inr found)
    then show ?thesis using Looked_Up v by (intro exI [of _ "[(tk, found)]"]) (auto simp: record_answer_def)
  qed
next
  case Wrote
  then show ?thesis using assms(3) by simp
qed

lemma run_hand_outs:
  assumes "sqlite E view saved" "system_run X E es s = Some t" "\<not> list_ex is_write es"
  shows "\<exists>h. answers t = h @ answers s \<and>
    hand_outs k h + of_bool (view (db t) k \<noteq> None) = of_bool (view (db s) k \<noteq> None)"
  using assms(2,3)
proof (induction es arbitrary: s)
  case Nil
  then show ?case by (intro exI [of _ "[]"]) simp
next
  case (Cons e es)
  then obtain u where u: "system_step X E e s = Some u" "system_run X E es u = Some t"
    by (auto split: option.splits)
  from step_hand_outs [OF assms(1) u(1), of k] Cons.prems(2) obtain h where
    "answers u = h @ answers s" "hand_outs k h + of_bool (view (db u) k \<noteq> None) = of_bool (view (db s) k \<noteq> None)"
    by auto
  moreover from Cons.IH [OF u(2)] Cons.prems(2) obtain h' where
    "answers t = h' @ answers u" "hand_outs k h' + of_bool (view (db t) k \<noteq> None) = of_bool (view (db u) k \<noteq> None)"
    by auto
  ultimately show ?case by (intro exI [of _ "h' @ h"]) simp
qed

section \<open>Properties\<close>

text \<open>
  C10. No secret is lost: over any run from any state, with whatever requests, failures, timeouts and
  cancellations, a stored row is still there unchanged, or a \<open>/trash\<close> lookup for exactly its
  credentials was handed that very row since.
\<close>

theorem no_secret_lost:
  assumes "sqlite E view saved" "reachable X E s t" "view (db s) k = Some row"
  shows "view (db t) k = Some row \<or> trashed k row (since s t)"
  using reach_keeps_row [OF assms] since_append by metis

definition demo_trash_events :: "event list" where
  "demo_trash_events =
     [Arrive_Fetch 0 (demo_request CHR ''b'') True, Lookup_Token 0, Admit 0, Permit_Granted 0, Query 0]"

definition demo_filled :: table_db where
  "demo_filled = demo_db\<lparr>table_rows := hm_insert (demo_tag CHR ''b'') demo_row fmempty\<rparr>"

lemma demo_trash_events_run:
  "\<exists>t. system_run reference_externals table_engine demo_trash_events (boot demo_state 0 0 demo_filled) = Some t \<and>
     table_view (db t) (demo_tag CHR ''b'') = None"
  using f64_round_nat [of 100] f64_round_nat [of 99]
  by (simp add: demo_trash_events_def demo_defs demo_validate demo_hash_eq demo_tag_def [symmetric] hm_simps demo_words
      demo_state_def demo_filled_def demo_db_def read_and_trash_secret_by_id_def
      immediate_transaction_def trash_body_def)

text \<open>The row of the scenario, trashed: it is gone, so the lookup was handed it.\<close>

theorem no_secret_lost_witness:
  "\<exists>t. system_run reference_externals table_engine demo_trash_events (boot demo_state 0 0 demo_filled) = Some t \<and>
     trashed (demo_tag CHR ''b'') demo_row (since (boot demo_state 0 0 demo_filled) t)"
proof -
  obtain t where run: "system_run reference_externals table_engine demo_trash_events (boot demo_state 0 0 demo_filled) = Some t"
      and gone: "table_view (db t) (demo_tag CHR ''b'') = None"
    using demo_trash_events_run by blast
  have row: "table_view (db (boot demo_state 0 0 demo_filled)) (demo_tag CHR ''b'') = Some demo_row"
    by (simp add: boot_def demo_filled_def hm_simps)
  have "trashed (demo_tag CHR ''b'') demo_row (since (boot demo_state 0 0 demo_filled) t)"
    using no_secret_lost [OF table.sqlite_axioms guarded_run_reach [OF reach_start run] row] gone by simp
  with run show ?thesis by blast
qed

text \<open>
  C11. A secret is handed out once: in any run without a write, however many requests race for it, a
  key that has a row gives it to exactly one \<open>/trash\<close> or still has it, and a key without one gives
  nothing.
\<close>

theorem trash_hands_out_once:
  assumes "sqlite E view saved" "system_run X E es s = Some t" "\<not> list_ex is_write es"
  shows "hand_outs k (since s t) + of_bool (view (db t) k \<noteq> None) = of_bool (view (db s) k \<noteq> None)"
  using run_hand_outs [OF assms, of k] since_append by metis

theorem trash_hands_out_once_witness:
  "\<exists>t. system_run reference_externals table_engine demo_trash_events (boot demo_state 0 0 demo_filled) = Some t \<and>
     hand_outs (demo_tag CHR ''b'') (since (boot demo_state 0 0 demo_filled) t) = 1"
proof -
  obtain t where run: "system_run reference_externals table_engine demo_trash_events (boot demo_state 0 0 demo_filled) = Some t"
      and gone: "table_view (db t) (demo_tag CHR ''b'') = None"
    using demo_trash_events_run by blast
  have row: "table_view (db (boot demo_state 0 0 demo_filled)) (demo_tag CHR ''b'') = Some demo_row"
    by (simp add: boot_def demo_filled_def hm_simps)
  have "\<not> list_ex is_write demo_trash_events" by (simp add: demo_trash_events_def)
  from trash_hands_out_once [OF table.sqlite_axioms run this, of "demo_tag CHR ''b''"] row gone
  have "hand_outs (demo_tag CHR ''b'') (since (boot demo_state 0 0 demo_filled) t) = 1" by simp
  with run show ?thesis by blast
qed

end
