(* ===== verification/Lifecycle.thy ===== *)
theory Lifecycle
  imports Telemetry System_Refinement Custody
begin

text \<open>
  The life of a request and of the server: every request ends after a bounded number of its own events,
  whatever the others do; and a graceful shutdown waits for every handler, so that a caller whose secret
  was taken out of the database gets it.
\<close>

section \<open>The work left in a request\<close>

text \<open>The most events a request can still take part in.\<close>

fun work_left :: "phase \<Rightarrow> nat" where
  "work_left (Received _ _) = 6"
| "work_left (Stamped _ _ _ _) = 5"
| "work_left (Permit_Wait _) = 4"
| "work_left (Querying _ awaited) = (if awaited then 3 else 2)"
| "work_left (Finalizing _ _ awaited) = (if awaited then 2 else 1)"
| "work_left (Permit_Timeout _) = 2"
| "work_left (Deferred_Removal _) = 1"
| "work_left (Answering _ _) = 1"
| "work_left (Store_Received _) = 4"
| "work_left (Store_Permit_Wait _) = 3"
| "work_left (Store_Writing _ awaited) = (if awaited then 2 else 1)"
| "work_left (Store_Answering _) = 1"
| "work_left (Responded _) = 0"
| "work_left Panicked = 0"
| "work_left Gone = 0"

fun poll_work_left :: "poll \<Rightarrow> nat" where
  "poll_work_left (Poll_Received _) = 5"
| "poll_work_left (Poll_Waiting _) = 4"
| "poll_work_left (Poll_Retaining _ _) = 3"
| "poll_work_left (Poll_Compressing _ _) = 2"
| "poll_work_left (Poll_Joined _ _) = 1"
| "poll_work_left Info_Received = 1"
| "poll_work_left (Poll_Done _) = 0"
| "poll_work_left Poll_Panicked = 0"
| "poll_work_left Poll_Left = 0"

definition job_work :: "'db System \<Rightarrow> nat \<Rightarrow> nat" where
  "job_work s j = (case hm_get (jobs s) j of None \<Rightarrow> 7 | Some p \<Rightarrow> work_left p)"

definition poll_work :: "'db Server \<Rightarrow> nat \<Rightarrow> nat" where
  "poll_work s j = (case hm_get (polls s) j of None \<Rightarrow> 6 | Some p \<Rightarrow> poll_work_left p)"

lemma work_left_le: "work_left p \<le> 6" "poll_work_left q \<le> 5"
  by (cases p; simp) (cases q; simp)

lemma work_le: "job_work s j \<le> 7" "poll_work s' j \<le> 7"
  by (auto simp: job_work_def poll_work_def split: option.splits
      intro: le_trans [OF work_left_le(1)] le_trans [OF work_left_le(2)])

lemma poll_answer_work [simp]: "poll_work_left (poll_answer inm x n ttl) = 0"
  by (simp add: poll_answer_def)

lemma admission_work: "work_left (phase_after_admission i c r tr a) < 5"
  by (auto simp: phase_after_admission_def split: admit_result.splits option.splits)

text \<open>An event of a request writes that request and no other, and uses up some of its work.\<close>

lemma job_event:
  assumes "system_step X E e s = Some t"
  shows "case event_of e of None \<Rightarrow> jobs t = jobs s
    | Some j \<Rightarrow> \<exists>p. jobs t = hm_insert j p (jobs s) \<and> work_left p < job_work s j"
proof (cases e)
  case (Admit j)
  then show ?thesis
    using assms admission_work by (auto simp: step_admit_def job_work_def set_job_def Let_def split_beta
        split: option.splits phase.splits if_splits)
next
  case (Cancel j b)
  then show ?thesis
    using assms by (auto simp: step_cancel_def drop_guard_def job_work_def set_job_def
        split: option.splits phase.splits bool.splits if_splits)
qed (use assms in \<open>auto simp: step_tick_def step_arrive_def step_permit_def step_permit_timed_out_def step_sweep_def
    step_timeout_cleanup_def step_run_deferred_def step_query_def step_finalize_def step_answer_def
    step_lookup_token_def step_store_token_def
    step_store_permit_def step_store_permit_timed_out_def step_store_write_def step_store_answer_def
    job_work_def set_job_def Let_def split_beta
    split: option.splits phase.splits if_splits fetch_entry.splits sum.splits\<close>)

text \<open>The request an event of the server belongs to: a lookup or a store, or a poll.\<close>

fun request_of :: "server_event \<Rightarrow> (nat + nat) option" where
  "request_of (Core e) = map_option Inl (event_of e)"
| "request_of e = map_option Inr (poll_of e)"

definition request_work :: "'db Server \<Rightarrow> nat + nat \<Rightarrow> nat" where
  "request_work s q = (case q of Inl j \<Rightarrow> job_work (core s) j | Inr j \<Rightarrow> poll_work s j)"

lemma step_request_work:
  assumes "server_step X C E L e s = Some t"
  shows "(if request_of e = Some q then request_work t q < request_work s q else request_work t q = request_work s q)"
proof (cases e)
  case (Core ev)
  then obtain c where "t = s\<lparr>core := c\<rparr>" "system_step X E ev (core s) = Some c"
    using server_stepD [OF assms] by (auto elim!: step_core_app)
  with job_event [OF this(2)] Core show ?thesis
    by (auto simp: request_work_def job_work_def poll_work_def hm_simps split: option.splits sum.splits)
qed (use server_stepD [OF assms] in \<open>auto simp: server_step_defs step_tick_def request_work_def job_work_def
    poll_work_def hm_simps Let_def split_beta
    split: option.splits poll.splits sweeper.splits sum.splits bool.splits if_splits\<close>)

lemma run_request_work:
  "server_run X C E L es s = Some t \<Longrightarrow>
     length (filter (\<lambda>e. request_of e = Some q) es) + request_work t q \<le> request_work s q"
proof (induction es arbitrary: s)
  case (Cons e es)
  then obtain u where u: "server_step X C E L e s = Some u" "server_run X C E L es u = Some t"
    by (auto split: option.splits)
  from Cons.IH [OF u(2)] step_request_work [OF u(1), of q] show ?case by (auto split: if_splits)
qed simp

text \<open>
  C22. Every request terminates: in any run of the server from any state, whatever the other requests,
  the sweeper and the clock do, at most seven events belong to one request, and none once it
  has been answered.
\<close>

theorem requests_terminate:
  assumes "server_run X C E L es s = Some t"
  shows "length (filter (\<lambda>e. request_of e = Some q) es) \<le> 7 \<and>
    ((\<exists>j r. q = Inl j \<and> hm_get (jobs (core s)) j = Some (Responded r)) \<or>
     (\<exists>j r. q = Inr j \<and> hm_get (polls s) j = Some (Poll_Done r)) \<longrightarrow>
     filter (\<lambda>e. request_of e = Some q) es = [])"
proof -
  have "request_work s q \<le> 7" using work_le by (auto simp: request_work_def split: sum.splits)
  then show ?thesis
    using run_request_work [OF assms, of q]
    by (auto simp: request_work_def job_work_def poll_work_def)
qed

theorem requests_terminate_witness:
  "length (filter (\<lambda>e. request_of e = Some (Inr 0)) (demo_poll_events 0)) \<le> 7"
  using requests_terminate [OF demo_poll_run, of "Inr 0" 0] by simp

section \<open>Waiting for the handlers\<close>

text \<open>A phase property that every event of the request but a cancellation keeps.\<close>

definition kept_by_events :: "externals \<Rightarrow> 'db engine \<Rightarrow> (phase \<Rightarrow> bool) \<Rightarrow> bool" where
  "kept_by_events X E P \<longleftrightarrow> (\<forall>e j s t p. system_step X E e s = Some t \<and> event_of e = Some j \<and>
     (\<forall>b. e \<noteq> Cancel j b) \<and> hm_get (jobs s) j = Some p \<and> P p \<longrightarrow> (\<exists>q. hm_get (jobs t) j = Some q \<and> P q))"

definition uncancelled :: "nat \<Rightarrow> server_event list \<Rightarrow> bool" where
  "uncancelled j es \<longleftrightarrow> (\<forall>b. Core (Cancel j b) \<notin> set es)"

lemma step_keeps_phase:
  assumes "kept_by_events X E P" "server_step X C E L e s = Some t" "\<forall>b. e \<noteq> Core (Cancel j b)"
    and "hm_get (jobs (core s)) j = Some p" "P p"
  shows "\<exists>q. hm_get (jobs (core t)) j = Some q \<and> P q"
proof (cases "request_of e = Some (Inl j)")
  case True
  then obtain ev where ev: "e = Core ev" "event_of ev = Some j" by (cases e) auto
  then have "system_step X E ev (core s) = Some (core t)"
    using server_stepD [OF assms(2)] by (auto elim!: step_core_app)
  then show ?thesis using assms(1,3-5) ev unfolding kept_by_events_def by blast
next
  case False
  have "hm_get (jobs (core t)) j = hm_get (jobs (core s)) j"
  proof (cases e)
    case (Core ev)
    then obtain c where "t = s\<lparr>core := c\<rparr>" "system_step X E ev (core s) = Some c"
      using server_stepD [OF assms(2)] by (auto elim!: step_core_app)
    with job_event [OF this(2)] Core False show ?thesis by (auto simp: hm_simps split: option.splits)
  qed (use server_stepD [OF assms(2)] in \<open>auto simp: server_step_defs step_tick_def Let_def split_beta
      split: option.splits poll.splits sweeper.splits sum.splits bool.splits if_splits\<close>)
  then show ?thesis using assms(4,5) by simp
qed

lemma run_keeps_phase:
  assumes "kept_by_events X E P"
  shows "server_run X C E L es s = Some t \<Longrightarrow> uncancelled j es \<Longrightarrow> hm_get (jobs (core s)) j = Some p \<Longrightarrow> P p \<Longrightarrow>
    \<exists>q. hm_get (jobs (core t)) j = Some q \<and> P q"
proof (induction es arbitrary: s p)
  case (Cons e es)
  then obtain u where u: "server_step X C E L e s = Some u" "server_run X C E L es u = Some t"
    by (auto split: option.splits)
  moreover have "\<forall>b. e \<noteq> Core (Cancel j b)" "uncancelled j es" using Cons.prems(2) by (auto simp: uncancelled_def)
  ultimately show ?case
    using step_keeps_phase [OF assms u(1), of j p] Cons.prems(3,4) Cons.IH [OF u(2)] by blast
qed auto

definition awaited :: "phase \<Rightarrow> bool" where
  "awaited p \<longleftrightarrow> attached p \<or> (\<exists>r. p = Responded r) \<or> p = Panicked"

lemma awaited_kept: "kept_by_events X E awaited"
proof -
  have admission: "attached (phase_after_admission i c r tr a) \<or> (\<exists>response. phase_after_admission i c r tr a = Responded response) \<or>
      phase_after_admission i c r tr a = Panicked" for i c r tr a
    by (auto simp: phase_after_admission_def split: admit_result.splits option.splits)
  then show ?thesis
    unfolding kept_by_events_def awaited_def
  proof (intro allI impI, elim conjE)
    fix e j and s t :: "'a System" and p
    assume "system_step X E e s = Some t" "event_of e = Some j" "\<forall>b. e \<noteq> Cancel j b"
      "hm_get (jobs s) j = Some p" "attached p \<or> (\<exists>r. p = Responded r) \<or> p = Panicked"
    with admission show "\<exists>q. hm_get (jobs t) j = Some q \<and> (attached q \<or> (\<exists>r. q = Responded r) \<or> q = Panicked)"
      by (cases e) (auto simp: step_arrive_def step_admit_def step_permit_def step_permit_timed_out_def
        step_timeout_cleanup_def step_run_deferred_def step_query_def step_finalize_def step_answer_def
        step_lookup_token_def step_store_token_def step_store_permit_def step_store_permit_timed_out_def
        step_store_write_def step_store_answer_def set_job_def hm_simps Let_def split_beta
        split: phase.splits option.splits if_splits fetch_entry.splits sum.splits)
  qed
qed

text \<open>The answer a finished lookup with a row is on its way to.\<close>

fun releases :: "Ticket \<Rightarrow> Secret \<Rightarrow> phase \<Rightarrow> bool" where
  "releases tk row (Finalizing tk' r b) \<longleftrightarrow> tk' = tk \<and> r = Inr (Some row) \<and> b"
| "releases tk row (Answering tk' r) \<longleftrightarrow> tk' = tk \<and> r = Inr (Some row)"
| "releases tk row (Responded r) \<longleftrightarrow>
     r = plain_response (if tk_is_trash tk then ACCEPTED else OK) (Released row (tk_status tk))"
| "releases tk row _ \<longleftrightarrow> False"

lemma releases_kept: "kept_by_events X E (releases tk row)"
  unfolding kept_by_events_def
proof (intro allI impI, elim conjE)
  fix e j and s t :: "'a System" and p
  assume "system_step X E e s = Some t" "event_of e = Some j" "\<forall>b. e \<noteq> Cancel j b"
    "hm_get (jobs s) j = Some p" "releases tk row p"
  then show "\<exists>q. hm_get (jobs t) j = Some q \<and> releases tk row q"
    by (cases p; cases e) (auto simp: step_arrive_def step_finalize_def step_answer_def fetch_answer_def step_admit_def
        step_permit_def step_permit_timed_out_def step_timeout_cleanup_def step_run_deferred_def step_query_def
        step_lookup_token_def step_store_token_def step_store_permit_def step_store_permit_timed_out_def
        step_store_write_def step_store_answer_def set_job_def hm_simps)
qed

text \<open>Once stopped, every handler is done.\<close>

definition stopped_ok :: "'db Server \<Rightarrow> bool" where
  "stopped_ok s \<longleftrightarrow> (stage s = Stopped \<longrightarrow> drained s)"

lemma step_stopped_ok:
  assumes "server_step X C E L e s = Some t"
  shows "stopped_ok t"
proof (cases e)
  case (Core ev)
  then show ?thesis using server_stepD [OF assms] by (auto simp: stopped_ok_def elim!: step_core_app)
qed (use server_stepD [OF assms] in \<open>auto simp: server_step_defs step_tick_def stopped_ok_def drained_def Let_def split_beta
    split: option.splits poll.splits sweeper.splits sum.splits bool.splits if_splits\<close>)

interpretation shutdown: guarded_machine "server_step X C E L" stopped_ok for X C E L
  by unfold_locales (rule step_stopped_ok)

lemma drained_job: "drained s \<Longrightarrow> hm_get (jobs (core s)) j = Some p \<Longrightarrow> \<not> attached p"
  by (auto simp: drained_def hm_get_def fmpred_iff)

text \<open>
  C12. Graceful shutdown answers: if a handler is running in some reachable state and the server has
  stopped at the end of a run in which that request is not cancelled (its client stays, the timeout does
  not fire), then it was answered; and if its lookup had already returned a row, which for \<open>/trash\<close> is
  then no longer in the database, the answer it got hands out exactly that row.
\<close>

theorem graceful_shutdown_answers:
  assumes "limits_ok st" "externals_ok X" "server_reachable X C E L (server_boot st w m d) s"
    and "server_run X C E L es s = Some t" "stage t = Stopped" "\<forall>b. Core (Cancel j b) \<notin> set es"
    and "hm_get (jobs (core s)) j = Some p" "attached p"
  shows "\<exists>r. hm_get (jobs (core t)) j = Some (Responded r) \<and>
    (\<forall>tk row. p = Finalizing tk (Inr (Some row)) True \<longrightarrow>
       status r = (if tk_is_trash tk then ACCEPTED else OK) \<and> body r = Released row (tk_status tk))"
proof -
  note t = guarded_run_reach [OF assms(3,4)]
  have uncancelled: "uncancelled j es" using assms(6) by (simp add: uncancelled_def)
  obtain q where q: "hm_get (jobs (core t)) j = Some q" "awaited q"
    using run_keeps_phase [OF awaited_kept assms(4) uncancelled assms(7)] assms(8) by (auto simp: awaited_def)
  have "stopped_ok (server_boot st w m d)" by (simp add: stopped_ok_def)
  with t have "stopped_ok t" by (rule shutdown.reach_inv)
  then have "\<not> attached q" using assms(5) drained_job [OF _ q(1)] by (simp add: stopped_ok_def)
  moreover have "q \<noteq> Panicked"
    using sys_invD(5) [OF server_sys_inv [OF assms(1) t], of j q] q(1) assms(2) by auto
  ultimately obtain r where r: "q = Responded r" using q(2) by (auto simp: awaited_def)
  have "status r = (if tk_is_trash tk then ACCEPTED else OK) \<and> body r = Released row (tk_status tk)"
    if "p = Finalizing tk (Inr (Some row)) True" for tk row
    using run_keeps_phase [OF releases_kept assms(4) uncancelled assms(7), of tk row] that q(1) r by auto
  with q(1) r show ?thesis by blast
qed

text \<open>The trash run of theory \<open>Custody\<close>, cut by a SIGTERM right after the row was deleted.\<close>

lemma demo_trash_cut:
  "\<exists>c tk. system_run reference_externals table_engine demo_trash_events (boot demo_state 0 0 demo_filled) = Some c \<and>
     jobs c = hm_insert 0 (Finalizing tk (Inr (Some demo_row)) True) fmempty \<and> tk_is_trash tk"
  using f64_round_nat [of 100] f64_round_nat [of 99]
  by (simp add: demo_trash_events_def demo_defs demo_validate demo_hash_eq demo_tag_def [symmetric] hm_simps demo_words
      demo_state_def demo_filled_def demo_db_def read_and_trash_secret_by_id_def
      immediate_transaction_def trash_body_def) (rule exI, rule conjI, rule refl, simp)

lemma demo_boot_core: "core (server_boot demo_state 0 0 d) = boot demo_state 0 0 d"
  by (simp add: demo_state_def)

definition demo_shutdown :: "server_event list" where
  "demo_shutdown = [Signal SIGTERM, Core (Finalize 0), Core (Answer 0), Stop]"

lemma shutdown_run:
  assumes "jobs (core s) = hm_insert 0 (Finalizing tk r True) fmempty" "polls s = fmempty" "stage s = Serving"
  shows "\<exists>t. server_run X C E L demo_shutdown s = Some t \<and> stage t = Stopped"
  using assms
  by (simp add: demo_shutdown_def server_step_def step_signal_def step_core_def step_finalize_def step_answer_def
      set_job_def hm_simps step_stop_def drained_def fmpred_iff) (simp add: hm_insert_def)

theorem graceful_shutdown_answers_witness:
  "\<exists>t r a. server_run reference_externals reference_codec table_engine demo_latency
      (map Core demo_trash_events @ demo_shutdown) (server_boot demo_state 0 0 demo_filled) = Some t \<and>
    stage t = Stopped \<and> hm_get (jobs (core t)) 0 = Some (Responded r) \<and> status r = ACCEPTED \<and>
    body r = Released demo_row a"
proof -
  let ?boot = "server_boot demo_state 0 0 demo_filled"
  obtain c tk where c: "system_run reference_externals table_engine demo_trash_events (core ?boot) = Some c"
      "jobs c = hm_insert 0 (Finalizing tk (Inr (Some demo_row)) True) fmempty" "tk_is_trash tk"
    using demo_trash_cut unfolding demo_boot_core by blast
  let ?s = "?boot\<lparr>core := c\<rparr>"
  have s: "server_run reference_externals reference_codec table_engine demo_latency
      (map Core demo_trash_events) ?boot = Some ?s"
    by (rule core_run [OF c(1)]) (simp_all add: demo_trash_events_def)
  have "\<exists>t. server_run reference_externals reference_codec table_engine demo_latency demo_shutdown ?s = Some t \<and>
      stage t = Stopped"
    by (rule shutdown_run) (simp_all add: c(2))
  then obtain t where t: "server_run reference_externals reference_codec table_engine demo_latency demo_shutdown ?s = Some t"
      "stage t = Stopped"
    by blast
  have "hm_get (jobs (core ?s)) 0 = Some (Finalizing tk (Inr (Some demo_row)) True)"
    using c(2) by (simp add: hm_simps)
  note job = this
  have "\<forall>b. Core (Cancel 0 b) \<notin> set demo_shutdown" by (simp add: demo_shutdown_def)
  from graceful_shutdown_answers [OF demo_limits reference_externals_ok guarded_run_reach [OF reach_start s] t this job]
  obtain r where r: "hm_get (jobs (core t)) 0 = Some (Responded r)" "status r = ACCEPTED"
      "body r = Released demo_row (tk_status tk)"
    using c(3) by auto
  have "server_run reference_externals reference_codec table_engine demo_latency
      (map Core demo_trash_events @ demo_shutdown) ?boot = Some t"
    using s t(1) by (simp add: guarded_run_append)
  with t(2) r show ?thesis by blast
qed

section \<open>Shutdown completes\<close>

definition requests :: "'db Server \<Rightarrow> (nat + nat) set" where
  "requests s = Inl ` hm_keys (jobs (core s)) \<union> Inr ` hm_keys (polls s)"

definition total_work :: "'db Server \<Rightarrow> nat" where
  "total_work s = (\<Sum>q\<in>requests s. request_work s q)"

lemma finite_requests [simp]: "finite (requests s)"
  by (simp add: requests_def)

lemma step_requests:
  assumes "server_step X C E L e s = Some t"
  shows "requests t = requests s \<union> set_option (request_of e)"
proof (cases e)
  case (Core ev)
  then obtain c where "t = s\<lparr>core := c\<rparr>" "system_step X E ev (core s) = Some c"
    using server_stepD [OF assms] by (auto elim!: step_core_app)
  with job_event [OF this(2)] Core show ?thesis
    by (auto simp: requests_def hm_simps split: option.splits)
qed (use server_stepD [OF assms] in \<open>auto simp: server_step_defs step_tick_def requests_def hm_simps Let_def split_beta
    split: option.splits poll.splits sweeper.splits sum.splits bool.splits if_splits dest: hm_get_keys\<close>)

lemma step_total_work:
  assumes "server_step X C E L e s = Some t" "request_of e = Some q" "q \<in> requests s"
  shows "total_work t < total_work s"
proof -
  have "requests t = requests s" using step_requests [OF assms(1)] assms(2,3) by auto
  moreover have "(\<Sum>r\<in>requests s. request_work t r) < (\<Sum>r\<in>requests s. request_work s r)"
  proof (rule sum_strict_mono_ex1)
    show "\<forall>r\<in>requests s. request_work t r \<le> request_work s r"
    proof
      fix r
      show "request_work t r \<le> request_work s r"
        using step_request_work [OF assms(1), of r] by (cases "request_of e = Some r") auto
    qed
    show "\<exists>r\<in>requests s. request_work t r < request_work s r"
      using step_request_work [OF assms(1), of q] assms(2,3) by (intro bexI [of _ q]) simp_all
  qed simp
  ultimately show ?thesis by (simp add: total_work_def)
qed

lemma total_work_le: "total_work s \<le> 6 * card (requests s)"
proof -
  have "request_work s q \<le> 6" if "q \<in> requests s" for q
    using that work_left_le(1) le_trans [OF work_left_le(2), of 6]
    by (auto simp: requests_def request_work_def job_work_def poll_work_def hm_keys_get)
  then have "total_work s \<le> (\<Sum>q\<in>requests s. 6)" unfolding total_work_def by (rule sum_mono)
  then show ?thesis by simp
qed

text \<open>
  An event that no client forces by leaving: no poll is cancelled, and a lookup only by the timeout.
\<close>

definition unforced :: "'db Server \<Rightarrow> server_event \<Rightarrow> bool" where
  "unforced s e \<longleftrightarrow>
     (\<forall>j. e \<noteq> Poll_Cancel j) \<and> (\<forall>j b. e = Core (Cancel j b) \<longrightarrow> timed_out (core s) j)"

lemma unforced_later:
  assumes "server_step X C E L e s = Some t" "request_of e \<noteq> None" "unforced t e'"
  shows "unforced s e'"
proof -
  have same: "timed_out c j = timed_out c' j" if "jobs c = jobs c'" "wall c = wall c'" for c c' :: "'b System" and j
    using that by (simp add: timed_out_def split: option.splits phase.splits)
  have "timed_out (core s) j" if "timed_out (core t) j" for j
  proof (cases "\<exists>ev. e = Core ev")
    case True
    then obtain ev where Core: "e = Core ev" ..
    then obtain c where "t = s\<lparr>core := c\<rparr>" "system_step X E ev (core s) = Some c"
      using server_stepD [OF assms(1)] by (auto elim!: step_core_app)
    with step_timed_out [OF this(2)] Core that assms(2) show ?thesis by simp
  next
    case False
    then have "jobs (core t) = jobs (core s) \<and> wall (core t) = wall (core s)"
      using server_stepD [OF assms(1)] assms(2)
      by (cases e) (auto simp: server_step_defs set_poll_def set_memory_def Let_def split_beta
          split: option.splits poll.splits sum.splits bool.splits if_splits)
    with that same show ?thesis by blast
  qed
  then show ?thesis using assms(3) by (auto simp: unforced_def)
qed

text \<open>A poll that does not wait for the lock can always take a step that is not a cancellation.\<close>

lemma poll_moves:
  assumes "stage s \<noteq> Stopped" "hm_get (polls s) j = Some p" "poll_attached p"
    and "(\<exists>i. p = Poll_Waiting i) \<longrightarrow> snapshot_holder s = None"
  shows "\<exists>e t. request_of e = Some (Inr j) \<and> unforced s e \<and> server_step X C E L e s = Some t \<and> stage t = stage s"
proof -
  note unforced_def [simp]
  have step: "server_step X C E L e s = live_step X C E L e s" for e
    using assms(1) by (simp add: server_step_def)
  show ?thesis
  proof (cases p)
    case (Poll_Received i)
    with assms show ?thesis
      by (intro exI [of _ "Poll_Token j"]) (simp add: step step_poll_token_def Let_def split_beta)
  next
    case (Poll_Waiting i)
    with assms show ?thesis
      by (intro exI [of _ "Poll_Lock j"]) (simp add: step step_poll_lock_def Let_def split: option.splits bool.splits)
  next
    case (Poll_Retaining i now)
    with assms show ?thesis
      by (intro exI [of _ "Poll_Collect j"])
        (simp add: step step_poll_collect_def Let_def split_beta split: option.splits)
  next
    case (Poll_Compressing i payload)
    with assms show ?thesis
      by (intro exI [of _ "Poll_Compressed j True"]) (simp add: step step_poll_compressed_def)
  next
    case (Poll_Joined i r)
    with assms show ?thesis
      by (intro exI [of _ "Poll_Reply j"]) (simp add: step step_poll_reply_def split: sum.splits)
  next
    case Info_Received
    with assms show ?thesis
      by (intro exI [of _ "Info_Answer j demo_fs"]) (simp add: step step_info_answer_def Let_def split_beta)
  qed (use assms in simp_all)
qed

lemma some_poll_moves:
  assumes "lock_ok s" "stage s \<noteq> Stopped" "hm_get (polls s) j = Some p" "poll_attached p"
  shows "\<exists>k e t. Inr k \<in> requests s \<and> request_of e = Some (Inr k) \<and> unforced s e \<and> server_step X C E L e s = Some t \<and> stage t = stage s"
proof (cases "(\<exists>i. p = Poll_Waiting i) \<and> snapshot_holder s \<noteq> None")
  case True
  then obtain k q where q: "hm_get (polls s) k = Some q" "holds_lock q" using assms(1) by (auto simp: lock_ok_def)
  then have "poll_attached q" "\<not> (\<exists>i. q = Poll_Waiting i)" by (cases q; simp)+
  with q assms(2) show ?thesis
    using poll_moves [of s k q X C E L] hm_get_keys [of "polls s" k q] by (auto simp: requests_def)
next
  case False
  with assms show ?thesis
    using poll_moves [of s j p X C E L] hm_get_keys [of "polls s" j p] by (auto simp: requests_def)
qed

lemma job_moves:
  assumes "stage s \<noteq> Stopped" "hm_get (jobs (core s)) j = Some p" "attached p"
  shows "\<exists>e t. Inl j \<in> requests s \<and> request_of e = Some (Inl j) \<and> unforced s e \<and> server_step X C E L e s = Some t \<and> stage t = stage s"
proof -
  have "0 < phase_rank p" using assms(3) by (cases p) auto
  then obtain ev c where ev: "event_of ev = Some j" "\<forall>b. ev = Cancel j b \<longrightarrow> timed_out (core s) j"
      "system_step X E ev (core s) = Some c"
    using own_event_enabled [OF assms(2), of X E] by (auto simp: moves_on_def)
  then have "\<not> is_background ev" "\<not> is_arrival ev"
    using assms(2) by (cases ev; simp add: step_arrive_def)+
  with ev assms(1,2) have "server_step X C E L (Core ev) s = Some (s\<lparr>core := c\<rparr>)"
    by (simp add: server_step_def step_core_def)
  moreover have "unforced s (Core ev)" using ev(1,2) by (auto simp: unforced_def)
  ultimately show ?thesis
    using ev(1) hm_get_keys [OF assms(2)] by (intro exI [of _ "Core ev"]) (simp add: requests_def)
qed

lemma draining_finishes:
  "lock_ok s \<Longrightarrow> stage s = Draining \<Longrightarrow> \<exists>es t. (\<forall>e\<in>set es. request_of e \<noteq> None \<and> unforced s e) \<and> length es \<le> total_work s \<and>
     server_run X C E L (es @ [Stop]) s = Some t \<and> stage t = Stopped"
proof (induction "total_work s" arbitrary: s rule: less_induct)
  case less
  show ?case
  proof (cases "drained s")
    case True
    then show ?thesis
      using less.prems(2) by (intro exI [of _ "[]"]) (simp add: server_step_def step_stop_def)
  next
    case False
    then have "\<exists>q e t. q \<in> requests s \<and> request_of e = Some q \<and> unforced s e \<and> server_step X C E L e s = Some t \<and> stage t = stage s"
      using job_moves [of s _ _ X C E L] some_poll_moves [OF less.prems(1), of _ _ X C E L] less.prems(2)
      by (fastforce simp: drained_def fmpred_iff hm_get_def)
    then obtain q e t where t: "q \<in> requests s" "request_of e = Some q" "server_step X C E L e s = Some t"
        "stage t = Draining" "unforced s e"
      using less.prems(2) by auto
    have work: "total_work t < total_work s" using step_total_work [OF t(3,2,1)] .
    from less.hyps [OF work step_lock_ok [OF less.prems(1) t(3)] t(4)] obtain es u where
      "\<forall>e\<in>set es. request_of e \<noteq> None \<and> unforced t e" "length es \<le> total_work t"
      "server_run X C E L (es @ [Stop]) t = Some u" "stage u = Stopped" by blast
    moreover have "unforced t e' \<Longrightarrow> unforced s e'" for e' using unforced_later [OF t(3)] t(2) by blast
    ultimately show ?thesis using t work by (intro exI [of _ "e # es"] exI [of _ u]) auto
  qed
qed

text \<open>
  C24. Shutdown completes: from every reachable state in which a signal has arrived, the server can come
  to its stop by events of the requests it has already accepted alone, at most six for each of them. No
  new request, no passing of time and no other signal is needed; and no client has to leave, so no lock is
  waited for in vain: the only requests cancelled are those whose timeout has already passed.
\<close>

theorem shutdown_completes:
  assumes "server_reachable X C E L (server_boot st w m d) s" "stage s = Draining"
  shows "\<exists>es t. (\<forall>e\<in>set es. request_of e \<noteq> None \<and> (\<forall>j. e \<noteq> Poll_Cancel j) \<and>
      (\<forall>j b. e = Core (Cancel j b) \<longrightarrow> timed_out (core s) j)) \<and> length es \<le> 6 * card (requests s) \<and>
    server_run X C E L (es @ [Stop]) s = Some t \<and> stage t = Stopped"
  using draining_finishes [OF reachable_telemetry(1) [OF assms(1)] assms(2), of X C E L] total_work_le [of s]
  unfolding unforced_def by (meson le_trans)

lemma demo_draining:
  "server_reachable reference_externals reference_codec table_engine demo_latency
     (server_boot demo_state 0 0 demo_db) ((demo_collecting 7)\<lparr>stage := Draining\<rparr>)"
proof (rule reach_step [OF demo_collecting_reachable [of 7]])
  show "demo_step (Signal SIGINT) (demo_collecting 7) = Some ((demo_collecting 7)\<lparr>stage := Draining\<rparr>)"
    by (simp add: server_step_def step_signal_def demo_collecting_def demo_server_def demo_start_def)
qed

theorem shutdown_completes_witness:
  "\<exists>es t. (\<forall>e\<in>set es. \<forall>j. e \<noteq> Poll_Cancel j) \<and>
    server_run reference_externals reference_codec table_engine demo_latency (es @ [Stop])
      ((demo_collecting 7)\<lparr>stage := Draining\<rparr>) = Some t \<and> stage t = Stopped"
  using shutdown_completes [OF demo_draining] by auto

end
