(* ===== verification/Router.thy ===== *)
theory Router
  imports Attempts_Handler Info_Handler Secrets
begin

text \<open>
  \<open>src/router.rs\<close>: the five routes, the method each accepts, the body limit and the handler called.
  The rejections of the framework and its JSON extractor are parameters (\<open>axum\<close>). \<open>serve\<close> composes
  the routing with the handlers for a request that nothing interrupts; the theorem says which routes
  can touch the database and the rate limiter at all.
\<close>

section \<open>Requests and routes\<close>

datatype http_method = GET | HEAD | POST | Other_Method string

record http_request =
  hr_method :: http_method
  hr_path :: string
  hr_if_none_match :: "string option"
  hr_body :: rust_bytes

datatype endpoint = Store_Endpoint | Fetch_Endpoint | Trash_Endpoint | Info_Endpoint | Attempts_Endpoint

definition routes :: "(string \<times> http_method \<times> endpoint) list" where
  "routes =
     [(''/store'', POST, Store_Endpoint), (''/fetch'', POST, Fetch_Endpoint),
      (''/trash'', POST, Trash_Endpoint), (''/info'', GET, Info_Endpoint),
      (''/attempts'', GET, Attempts_Endpoint)]"

text \<open>\<open>DefaultBodyLimit\<close>, which the JSON extractors apply before they parse.\<close>

definition BODY_LIMIT :: nat where
  "BODY_LIMIT = 1024"

text \<open>
  The extractors give the response of the framework when the body is not the expected JSON.
\<close>

record axum =
  json_store :: "rust_bytes \<Rightarrow> Response + StoreSecret"
  json_fetch :: "rust_bytes \<Rightarrow> Response + FetchSecret"
  not_found :: Response
  method_not_allowed :: Response
  payload_too_large :: Response

datatype call =
    Store_Call StoreSecret
  | Fetch_Call FetchSecret bool
  | Info_Call
  | Attempts_Call "string option"

text \<open>A route for \<open>GET\<close> also serves \<open>HEAD\<close>.\<close>

definition accepts :: "http_method \<Rightarrow> http_method \<Rightarrow> bool" where
  "accepts route_method m \<longleftrightarrow> m = route_method \<or> route_method = GET \<and> m = HEAD"

definition extract_json :: "axum \<Rightarrow> (rust_bytes \<Rightarrow> Response + 'a) \<Rightarrow> ('a \<Rightarrow> call) \<Rightarrow> rust_bytes \<Rightarrow> Response + call" where
  "extract_json A parse k b =
     (if BODY_LIMIT < length b then Inl (payload_too_large A)
      else (case parse b of Inl r \<Rightarrow> Inl r | Inr a \<Rightarrow> Inr (k a)))"

definition call_of :: "axum \<Rightarrow> endpoint \<Rightarrow> http_request \<Rightarrow> Response + call" where
  "call_of A e req =
     (case e of
        Store_Endpoint \<Rightarrow> extract_json A (json_store A) Store_Call (hr_body req)
      | Fetch_Endpoint \<Rightarrow> extract_json A (json_fetch A) (\<lambda>r. Fetch_Call r False) (hr_body req)
      | Trash_Endpoint \<Rightarrow> extract_json A (json_fetch A) (\<lambda>r. Fetch_Call r True) (hr_body req)
      | Info_Endpoint \<Rightarrow> Inr Info_Call
      | Attempts_Endpoint \<Rightarrow> Inr (Attempts_Call (hr_if_none_match req)))"

definition dispatch :: "axum \<Rightarrow> http_request \<Rightarrow> Response + call" where
  "dispatch A req =
     (case map_of routes (hr_path req) of
        None \<Rightarrow> Inl (not_found A)
      | Some (m, e) \<Rightarrow>
          if accepts m (hr_method req) then call_of A e req else Inl (method_not_allowed A))"

section \<open>Serving a request\<close>

text \<open>What the environment decides while a request is served: clocks, the permit, the dotenv file.\<close>

record moment =
  mo_token :: instant
  mo_utc :: DateTime
  mo_rfc3339 :: string
  mo_permit :: bool
  mo_attempts :: attempts_times
  mo_joined :: bool
  mo_files :: dotenv_fs

definition run_call ::
  "externals \<Rightarrow> snapshot_codec \<Rightarrow> 'db engine \<Rightarrow> moment \<Rightarrow> call \<Rightarrow> AppState \<Rightarrow> 'db
     \<Rightarrow> Response option \<times> AppState \<times> 'db" where
  "run_call X C E w c st d =
     (case c of
        Store_Call request \<Rightarrow>
          (let (r, st', d') = store_secret X E request (mo_token w) (mo_rfc3339 w) (mo_permit w) st d
           in (Some r, st', d'))
      | Fetch_Call request is_trash \<Rightarrow>
          fetch_secret X E is_trash request (mo_token w) (mo_utc w) (mo_permit w) st d
      | Info_Call \<Rightarrow> (let (r, st') = get_info X (mo_files w) st in (r, st', d))
      | Attempts_Call if_none_match \<Rightarrow>
          (let (r, st') = get_attempts X C (mo_attempts w) (mo_joined w) if_none_match st in (r, st', d)))"

definition serve ::
  "externals \<Rightarrow> snapshot_codec \<Rightarrow> 'db engine \<Rightarrow> axum \<Rightarrow> moment \<Rightarrow> http_request \<Rightarrow> AppState \<Rightarrow> 'db
     \<Rightarrow> Response option \<times> AppState \<times> 'db" where
  "serve X C E A w req st d =
     (case dispatch A req of
        Inl r \<Rightarrow> (Some r, st, d)
      | Inr c \<Rightarrow> run_call X C E w c st d)"

section \<open>What each call can touch\<close>

lemma extract_json_Inr:
  "extract_json A parse k b = Inr c \<Longrightarrow> \<exists>a. c = k a \<and> length b \<le> BODY_LIMIT"
  by (auto simp: extract_json_def split: if_splits sum.splits)

lemma dispatch_store:
  "dispatch A req = Inr (Store_Call request) \<Longrightarrow> hr_method req = POST \<and> hr_path req = ''/store''"
  by (auto simp: dispatch_def routes_def call_of_def accepts_def dest: extract_json_Inr
      split: option.splits if_splits)

lemma dispatch_fetch:
  "dispatch A req = Inr (Fetch_Call request is_trash) \<Longrightarrow>
     hr_method req = POST \<and> hr_path req = (if is_trash then ''/trash'' else ''/fetch'')"
  by (auto simp: dispatch_def routes_def call_of_def accepts_def dest!: extract_json_Inr
      split: option.splits if_splits)

lemma store_secret_map:
  "identifier_rate_limit (fst (snd (store_secret X E request now created permit st d))) = identifier_rate_limit st"
  by (simp add: store_secret_def store_entry_step_def take_store_token_def Let_def split_beta split: sum.splits)

lemma get_info_map: "identifier_rate_limit (snd (get_info X F st)) = identifier_rate_limit st"
  by (simp add: get_info_def live_canary_def Let_def split_beta)

lemma get_attempts_view:
  assumes "at_wall t \<le> now"
  shows "active_view (rate_limit_cooldown st) now (identifier_rate_limit (snd (get_attempts X C t joined inm st)))
    = active_view (rate_limit_cooldown st) now (identifier_rate_limit st)"
  using assms
  by (auto simp: get_attempts_def refresh_def build_snapshot_defs take_attempts_token_def Let_def split_beta
      active_view_retain split: option.splits sum.splits bool.splits)

lemma store_rows:
  assumes "sqlite E view saved" "store_secret X E request now created permit st d = (r, st', d')"
  shows "view d \<subseteq>\<^sub>m view d' \<and> (view d' = view d \<or> status r < BAD_REQUEST)"
  using assms(2)
proof (cases rule: store_secret_cases)
  case (Written key result)
  then show ?thesis
    using sqlite.blocking_write_view [OF assms(1) Written(4)] store_answer_created [of result]
    by (auto simp: map_le_def less_StatusCode_def)
qed simp

lemma fetch_rows:
  assumes "sqlite E view saved" "fetch_secret X E tr request now utc permit st d = (r, st', d')"
  shows "view d' \<subseteq>\<^sub>m view d \<and> (\<not> tr \<longrightarrow> view d' = view d) \<and>
    (view d' = view d \<or> (\<exists>a. r = Some a \<and> status a < BAD_REQUEST))"
  using assms(2)
proof (cases rule: fetch_secret_cases)
  case (Looked_Up tk result)
  have "(view d)(k := None) = view d" if "view d k = None" for k using that by auto
  then show ?thesis
    using Looked_Up sqlite.blocking_lookup_view [OF assms(1) Looked_Up(2)] fetch_answer_cases(1) [of st' tk result]
    by (auto simp: map_le_def less_StatusCode_def split: sum.splits if_splits option.splits)
qed simp

text \<open>
  C19. Each route can only do what it is for: rows of the table appear only through \<open>POST /store\<close> and
  disappear only through \<open>POST /trash\<close>, no row is ever changed in place or by a request that is
  answered with an error, and what later lookups see
  of the rate limiter changes only through \<open>POST /fetch\<close> and \<open>POST /trash\<close>: reading \<open>/attempts\<close> or
  \<open>/info\<close>, an unknown path or a rejected body never frees or takes an attempt.
\<close>

theorem routes_confine_effects:
  assumes "sqlite E view saved" "serve X C E A w req st d = (r, st', d')" "at_wall (mo_attempts w) \<le> now"
  shows "(view d' \<subseteq>\<^sub>m view d \<or> hr_method req = POST \<and> hr_path req = ''/store'') \<and>
    (view d \<subseteq>\<^sub>m view d' \<or> hr_method req = POST \<and> hr_path req = ''/trash'') \<and>
    (view d' \<subseteq>\<^sub>m view d \<or> view d \<subseteq>\<^sub>m view d') \<and>
    (view d' = view d \<or> (\<exists>a. r = Some a \<and> status a < BAD_REQUEST)) \<and>
    (active_view (rate_limit_cooldown st) now (identifier_rate_limit st') =
       active_view (rate_limit_cooldown st) now (identifier_rate_limit st) \<or>
     hr_method req = POST \<and> (hr_path req = ''/fetch'' \<or> hr_path req = ''/trash''))"
proof (cases "dispatch A req")
  case (Inl response)
  then show ?thesis using assms(2) by (auto simp: serve_def)
next
  case (Inr c)
  show ?thesis
  proof (cases c)
    case (Store_Call request)
    then obtain a where a: "r = Some a"
        "store_secret X E request (mo_token w) (mo_rfc3339 w) (mo_permit w) st d = (a, st', d')"
      using assms(2) Inr by (auto simp: serve_def run_call_def split: prod.splits)
    from store_rows [OF assms(1) a(2)] store_secret_map [of X E request "mo_token w" "mo_rfc3339 w" "mo_permit w" st d] a
    show ?thesis using dispatch_store [OF Inr [unfolded Store_Call]] by simp
  next
    case (Fetch_Call request is_trash)
    then have "fetch_secret X E is_trash request (mo_token w) (mo_utc w) (mo_permit w) st d = (r, st', d')"
      using assms(2) Inr by (simp add: serve_def run_call_def)
    from fetch_rows [OF assms(1) this] show ?thesis
      using dispatch_fetch [OF Inr [unfolded Fetch_Call]] by (auto split: if_splits)
  next
    case Info_Call
    then show ?thesis
      using assms(2) Inr get_info_map [of X "mo_files w" st] by (auto simp: serve_def run_call_def split: prod.splits)
  next
    case (Attempts_Call inm)
    then show ?thesis
      using assms(2) Inr get_attempts_view [OF assms(3), of st X C "mo_joined w" inm]
      by (auto simp: serve_def run_call_def split: prod.splits)
  qed
qed

definition demo_axum :: axum where
  "demo_axum =
     \<lparr>json_store = (\<lambda>_. Inl (plain_response BAD_REQUEST Empty)), json_fetch = (\<lambda>_. Inr (demo_request CHR ''b'')),
      not_found = plain_response BAD_REQUEST Empty, method_not_allowed = plain_response BAD_REQUEST Empty,
      payload_too_large = plain_response BAD_REQUEST Empty\<rparr>"

definition demo_moment :: moment where
  "demo_moment =
     \<lparr>mo_token = 0, mo_utc = 0, mo_rfc3339 = ''now'', mo_permit = True, mo_attempts = demo_times,
      mo_joined = True, mo_files = demo_fs\<rparr>"

text \<open>A poll of \<open>/attempts\<close> in the final state of the scenario.\<close>

theorem routes_confine_effects_witness:
  "\<exists>r st' d'. serve reference_externals reference_codec table_engine demo_axum demo_moment
       \<lparr>hr_method = GET, hr_path = ''/attempts'', hr_if_none_match = None, hr_body = []\<rparr>
       (app demo_final) demo_db = (r, st', d') \<and>
     active_view nanos_per_minute 0 (identifier_rate_limit st') =
       active_view nanos_per_minute 0 (identifier_rate_limit (app demo_final))"
proof -
  let ?req = "\<lparr>hr_method = GET, hr_path = ''/attempts'', hr_if_none_match = None, hr_body = []\<rparr>"
  obtain r st' d' where run: "serve reference_externals reference_codec table_engine demo_axum demo_moment ?req
      (app demo_final) demo_db = (r, st', d')"
    by (metis prod_cases3)
  moreover have "rate_limit_cooldown (app demo_final) = nanos_per_minute"
    by (simp add: demo_final_def demo_system_def demo_state_def)
  ultimately show ?thesis
    using routes_confine_effects [OF table.sqlite_axioms run, of 0]
    by (simp add: demo_moment_def demo_times_def)
qed

end
