(* ===== verification/Server_Requests.thy ===== *)
theory Server_Requests
  imports Lifecycle Router
begin

text \<open>
  The routes and the running server: a request that nothing interrupts, dispatched by the router and
  answered by its sequential handler (theory \<open>Router\<close>), is a run of the whole server in which only
  events of that request happen.
\<close>

section \<open>The answer to a request\<close>

definition job_reply :: "phase \<Rightarrow> Response option option" where
  "job_reply p = (case p of Responded r \<Rightarrow> Some (Some r) | Panicked \<Rightarrow> Some None | _ \<Rightarrow> None)"

definition poll_reply :: "poll \<Rightarrow> Response option option" where
  "poll_reply p = (case p of Poll_Done r \<Rightarrow> Some (Some r) | Poll_Panicked \<Rightarrow> Some None | _ \<Rightarrow> None)"

text \<open>What the client of call \<open>c\<close> with number \<open>j\<close> got: a response, or a closed connection after a panic.\<close>

definition reply_of :: "call \<Rightarrow> nat \<Rightarrow> 'db Server \<Rightarrow> Response option option" where
  "reply_of c j s =
     (case c of
        Store_Call _ \<Rightarrow> Option.bind (hm_get (jobs (core s)) j) job_reply
      | Fetch_Call _ _ \<Rightarrow> Option.bind (hm_get (jobs (core s)) j) job_reply
      | Info_Call \<Rightarrow> Option.bind (hm_get (polls s) j) poll_reply
      | Attempts_Call _ \<Rightarrow> Option.bind (hm_get (polls s) j) poll_reply)"

definition call_runs ::
  "externals \<Rightarrow> snapshot_codec \<Rightarrow> 'db engine \<Rightarrow> nat \<Rightarrow> call \<Rightarrow> nat \<Rightarrow> 'db Server \<Rightarrow> Response option \<Rightarrow> AppState \<Rightarrow> 'db \<Rightarrow> bool" where
  "call_runs X C E L c j s r st d \<longleftrightarrow>
     (\<exists>es t. server_run X C E L es s = Some t \<and> list_all (\<lambda>e. request_of e \<in> {Some (Inl j), Some (Inr j)}) es \<and>
        memory t = st \<and> db (core t) = d \<and> reply_of c j t = Some r)"

lemma outcome_reply [simp]: "job_reply (outcome r) = Some r" "job_reply (Responded response) = Some (Some response)"
  by (simp_all add: job_reply_def outcome_def split: option.splits)

lemma job_call_runs:
  assumes "runs_to X E j (core s) p st d" "job_reply p = Some r" "stage s = Serving"
    and "(\<exists>q. c = Store_Call q) \<or> (\<exists>q tr. c = Fetch_Call q tr)"
  shows "call_runs X C E L c j s r st d"
proof -
  from assms(1) obtain es c' where run: "list_all (\<lambda>e. event_of e = Some j) es" "system_run X E es (core s) = Some c'"
      "jobs c' = hm_insert j p (jobs (core s))" "app c' = st" "db c' = d"
    by (auto simp: runs_to_def)
  have "event_of e = Some j \<Longrightarrow> \<not> is_background e" for e by (cases e) auto
  then have "list_all (\<lambda>e. \<not> is_background e) es" using run(1) by (auto simp: list_all_iff)
  from core_run [OF run(2) this assms(3)]
  have "server_run X C E L (map Core es) s = Some (s\<lparr>core := c'\<rparr>)" .
  moreover have "list_all (\<lambda>e. request_of e \<in> {Some (Inl j), Some (Inr j)}) (map Core es)"
    using run(1) by (simp add: list_all_iff)
  moreover have "reply_of c j (s\<lparr>core := c'\<rparr>) = Some r"
    using assms(2,4) run(3) by (auto simp: reply_of_def hm_simps)
  ultimately show ?thesis using run(4,5) unfolding call_runs_def memory_def by fastforce
qed

text \<open>All readings of the clocks at one moment.\<close>

definition instantly :: "'db Server \<Rightarrow> attempts_times" where
  "instantly s = \<lparr>at_token = mono (core s), at_check = mono (core s), at_wall = wall (core s),
     at_built = mono (core s), at_reply = mono (core s)\<rparr>"

lemma call_runs_cons:
  assumes "server_step X C E L e s = Some t" "request_of e = Some (Inr j)" "call_runs X C E L c j t r st d"
  shows "call_runs X C E L c j s r st d"
proof -
  from assms(3) obtain es u where "server_run X C E L es t = Some u"
      "list_all (\<lambda>e. request_of e \<in> {Some (Inl j), Some (Inr j)}) es"
      "memory u = st" "db (core u) = d" "reply_of c j u = Some r"
    by (auto simp: call_runs_def)
  with assms(1,2) show ?thesis unfolding call_runs_def by (intro exI [of _ "e # es"] exI [of _ u]) simp
qed

lemma poll_call_done:
  "hm_get (polls s) j = Some p \<Longrightarrow> poll_reply p = Some r \<Longrightarrow> c = Info_Call \<or> (\<exists>i. c = Attempts_Call i) \<Longrightarrow>
     call_runs X C E L c j s r (memory s) (db (core s))"
  unfolding call_runs_def by (intro exI [of _ "[]"] exI [of _ s]) (auto simp: reply_of_def)

lemma info_runs:
  assumes "stage s = Serving" "hm_get (polls s) j = None" "get_info X F (memory s) = (r, st')"
  shows "call_runs X C E L Info_Call j s r st' (db (core s))"
proof -
  let ?s1 = "set_poll j Info_Received s"
  let ?s2 = "set_poll j (case r of None \<Rightarrow> Poll_Panicked | Some response \<Rightarrow> Poll_Done response) (set_memory st' ?s1)"
  have steps: "server_step X C E L (Info_Arrive j) s = Some ?s1" "server_step X C E L (Info_Answer j F) ?s1 = Some ?s2"
    using assms by (simp_all add: server_step_def step_poll_arrive_def step_info_answer_def hm_simps)
  have "call_runs X C E L Info_Call j ?s2 r (memory ?s2) (db (core ?s2))"
    by (rule poll_call_done) (auto simp: hm_simps poll_reply_def split: option.splits)
  from call_runs_cons [OF steps(1) _ call_runs_cons [OF steps(2) _ this]] show ?thesis by simp
qed

text \<open>A poll with the lock: it collects, compresses, and answers as \<open>build_snapshot\<close> says.\<close>

lemma poll_answer_reply [simp]:
  "poll_reply (poll_answer inm x n ttl) = Some (Some (snapshot_response inm x (remaining_max_age (n - created_at x) ttl)))"
  "poll_reply (Poll_Done response) = Some (Some response)" "poll_reply Poll_Panicked = Some None"
  by (simp_all add: poll_answer_def poll_reply_def)

definition after_build :: "string option \<Rightarrow> instant \<Rightarrow> (Response + AttemptsSnapshotCache) option \<times> AppState
    \<Rightarrow> Response option \<times> AppState" where
  "after_build inm now b =
     (case b of
        (None, st) \<Rightarrow> (None, st)
      | (Some (Inl response), st) \<Rightarrow> (Some response, st)
      | (Some (Inr x), st) \<Rightarrow>
          (Some (snapshot_response inm x (remaining_max_age (now - created_at x) (attempts_snapshot_ttl st))),
           st\<lparr>attempts_snapshot := Some x\<rparr>))"

lemma retaining_runs:
  assumes "stage s = Serving" "hm_get (polls s) j = Some (Poll_Retaining inm now)"
    and "after_build inm (mono (core s)) (build_snapshot X C now (mono (core s)) joined (memory s)) = (r, st')"
  shows "call_runs X C E L (Attempts_Call inm') j s r st' (db (core s))"
proof -
  let ?c = "collect_snapshot X C now (memory s)"
  let ?s = "set_memory (snd ?c) s"
  show ?thesis
  proof (cases "fst ?c")
    case None
    let ?t = "set_poll j Poll_Panicked (?s\<lparr>snapshot_holder := None\<rparr>)"
    have step: "server_step X C E L (Poll_Collect j) s = Some ?t"
      using assms(1,2) None by (simp add: server_step_def step_poll_collect_def Let_def split_beta)
    have "call_runs X C E L (Attempts_Call inm') j ?t None (memory ?t) (db (core ?t))"
      by (rule poll_call_done [where p = Poll_Panicked]) (simp_all add: hm_simps)
    from call_runs_cons [OF step _ this] show ?thesis
      using assms(3) None by (simp add: after_build_def build_snapshot_def split_beta)
  next
    case (Some payload)
    let ?f = "finish_snapshot X C (mono (core s)) joined payload"
    let ?t = "set_poll j (Poll_Compressing inm payload) (?s\<lparr>collected := (payload, core ?s) # collected s\<rparr>)"
    let ?u = "set_poll j (Poll_Joined inm ?f) ?t"
    have steps: "server_step X C E L (Poll_Collect j) s = Some ?t"
        "server_step X C E L (Poll_Compressed j joined) ?t = Some ?u"
      using assms(1,2) Some
      by (simp_all add: server_step_def step_poll_collect_def step_poll_compressed_def Let_def split_beta hm_simps)
    have "\<exists>v. server_step X C E L (Poll_Reply j) ?u = Some v \<and>
        call_runs X C E L (Attempts_Call inm') j v r st' (db (core s))"
    proof (cases ?f)
      case (Inl response)
      let ?v = "set_poll j (Poll_Done response) (?u\<lparr>snapshot_holder := None\<rparr>)"
      have "call_runs X C E L (Attempts_Call inm') j ?v (Some response) (memory ?v) (db (core ?v))"
        by (rule poll_call_done, simp add: hm_simps, simp_all)
      then show ?thesis
        using assms(1,3) Some Inl
        by (intro exI [of _ ?v])
          (simp add: server_step_def step_poll_reply_def hm_simps after_build_def build_snapshot_def split_beta)
    next
      case (Inr x)
      let ?v = "set_poll j (poll_answer inm x (mono (core s)) (attempts_snapshot_ttl (snd ?c)))
        (set_memory ((snd ?c)\<lparr>attempts_snapshot := Some x\<rparr>) (?u\<lparr>snapshot_holder := None, builds := x # builds s\<rparr>))"
      have "call_runs X C E L (Attempts_Call inm') j ?v
          (Some (snapshot_response inm x (remaining_max_age (mono (core s) - created_at x) (attempts_snapshot_ttl (snd ?c)))))
          (memory ?v) (db (core ?v))"
        by (rule poll_call_done, simp add: hm_simps, simp_all)
      then show ?thesis
        using assms(1,3) Some Inr
        by (intro exI [of _ ?v])
          (simp add: server_step_def step_poll_reply_def hm_simps after_build_def build_snapshot_def split_beta)
    qed
    then obtain v where v: "server_step X C E L (Poll_Reply j) ?u = Some v"
        "call_runs X C E L (Attempts_Call inm') j v r st' (db (core s))" by blast
    show ?thesis
      by (rule call_runs_cons [OF steps(1) _ call_runs_cons [OF steps(2) _ call_runs_cons [OF v(1) _ v(2)]]]) simp_all
  qed
qed

lemma attempts_runs:
  assumes "stage s = Serving" "hm_get (polls s) j = None" "snapshot_holder s = None"
    and "get_attempts X C (instantly s) joined inm (memory s) = (r, st')"
  shows "call_runs X C E L (Attempts_Call inm) j s r st' (db (core s))"
proof -
  let ?now = "mono (core s)"
  obtain ok st1 where tok: "take_attempts_token ?now (memory s) = (ok, st1)" by fastforce
  let ?s1 = "set_poll j (Poll_Received inm) s"
  let ?s2 = "set_poll j (if ok then Poll_Waiting inm else Poll_Done attempts_overload_response) (set_memory st1 ?s1)"
  have steps: "server_step X C E L (Poll_Arrive j inm) s = Some ?s1" "server_step X C E L (Poll_Token j) ?s1 = Some ?s2"
    using assms(1,2) tok by (simp_all add: server_step_def step_poll_arrive_def step_poll_token_def hm_simps memory_def)
  have "call_runs X C E L (Attempts_Call inm) j ?s2 r st' (db (core ?s2))"
  proof (cases ok)
    case False
    have "call_runs X C E L (Attempts_Call inm) j ?s2 (Some attempts_overload_response) (memory ?s2) (db (core ?s2))"
      by (rule poll_call_done) (auto simp: hm_simps False)
    then show ?thesis using assms(4) tok False by (simp add: get_attempts_def instantly_def)
  next
    case True
    show ?thesis
    proof (cases "stale (attempts_snapshot st1) ?now (attempts_snapshot_ttl st1)")
      case stale: False
      then obtain x where x: "attempts_snapshot st1 = Some x" by (auto simp: stale_def split: option.splits)
      let ?s3 = "set_poll j (poll_answer inm x ?now (attempts_snapshot_ttl st1)) ?s2"
      have step: "server_step X C E L (Poll_Lock j) ?s2 = Some ?s3"
        using assms(1,3) True x stale by (simp add: server_step_def step_poll_lock_def hm_simps memory_def [of ?s2] memory_def)
      have "call_runs X C E L (Attempts_Call inm) j ?s3
          (Some (snapshot_response inm x (remaining_max_age (?now - created_at x) (attempts_snapshot_ttl st1))))
          (memory ?s3) (db (core ?s3))"
        by (rule poll_call_done, simp add: hm_simps, simp_all)
      from call_runs_cons [OF step _ this] show ?thesis
        using assms(4) tok True x stale by (auto simp: get_attempts_def instantly_def refresh_def)
    next
      case stale: True
      let ?s3 = "set_poll j (Poll_Retaining inm (wall (core s))) (?s2\<lparr>snapshot_holder := Some j\<rparr>)"
      have step: "server_step X C E L (Poll_Lock j) ?s2 = Some ?s3"
        using assms(1,3) True stale
        by (auto simp: server_step_def step_poll_lock_def hm_simps Let_def split: option.splits bool.splits)
      have "after_build inm ?now (build_snapshot X C (wall (core s)) ?now joined st1) = (r, st')"
        using assms(4) tok True stale
        by (auto simp: get_attempts_def instantly_def refresh_def after_build_def split_beta
            split: option.splits sum.splits prod.splits)
      then have "call_runs X C E L (Attempts_Call inm) j ?s3 r st' (db (core ?s3))"
        by (intro retaining_runs [where inm = inm and now = "wall (core s)" and joined = joined])
          (simp_all add: assms(1) hm_simps)
      from call_runs_cons [OF step _ this] show ?thesis by simp
    qed
  qed
  from call_runs_cons [OF steps(1) _ call_runs_cons [OF steps(2) _ this]] show ?thesis by simp
qed

text \<open>
  C20. What a client of the router gets is what the server does: for a request that the router accepts,
  served at one moment of a serving state with the lock of the snapshot free and (if the moment grants
  one) a database permit free, the response, the memory and the database of the sequential \<open>serve\<close> are
  those of a run of the whole server in which only events of that request happen; a rejected request
  changes nothing.
\<close>

theorem serve_refines:
  assumes "serve X C E A moment req (memory s) (db (core s)) = (r, st', d')"
    and "mo_token moment = mono (core s)" "mo_utc moment = wall (core s)" "mo_attempts moment = instantly s"
    and "mo_permit moment \<longrightarrow> 0 < database_semaphore (memory s)"
    and "stage s = Serving" "snapshot_holder s = None"
    and "hm_get (jobs (core s)) j = None" "hm_get (polls s) j = None"
  shows "case dispatch A req of
      Inl response \<Rightarrow> r = Some response \<and> st' = memory s \<and> d' = db (core s)
    | Inr c \<Rightarrow> (\<exists>es t. server_run X C E L es s = Some t \<and>
        list_all (\<lambda>e. request_of e \<in> {Some (Inl j), Some (Inr j)}) es \<and>
        memory t = st' \<and> db (core t) = d' \<and> reply_of c j t = Some r)"
proof (cases "dispatch A req")
  case (Inl response)
  then show ?thesis using assms(1) by (simp add: serve_def)
next
  case (Inr c)
  have "call_runs X C E L c j s r st' d'"
  proof (cases c)
    case (Store_Call request)
    then obtain a where a: "r = Some a"
        "store_secret X E request (mono (core s)) (mo_rfc3339 moment) (mo_permit moment) (app (core s)) (db (core s)) = (a, st', d')"
      using assms(1,2) Inr by (auto simp: serve_def run_call_def memory_def split: prod.splits)
    from store_runs [OF assms(8) assms(5) [unfolded memory_def] a(2)] show ?thesis
      by (rule job_call_runs) (use assms(6) Store_Call a(1) in simp_all)
  next
    case (Fetch_Call request tr)
    then have "fetch_secret X E tr request (mono (core s)) (wall (core s)) (mo_permit moment) (app (core s)) (db (core s)) = (r, st', d')"
      using assms(1-3) Inr by (simp add: serve_def run_call_def memory_def)
    from fetch_runs [OF assms(8) assms(5) [unfolded memory_def] this] show ?thesis
      by (rule job_call_runs) (use assms(6) Fetch_Call in simp_all)
  next
    case Info_Call
    then show ?thesis
      using assms(1) Inr info_runs [OF assms(6,9), of X "mo_files moment"]
      by (auto simp: serve_def run_call_def split: prod.splits)
  next
    case (Attempts_Call inm)
    then show ?thesis
      using assms(1,4) Inr attempts_runs [OF assms(6,9,7), of X C "mo_joined moment" inm]
      by (auto simp: serve_def run_call_def split: prod.splits)
  qed
  with Inr show ?thesis by (simp add: call_runs_def)
qed

text \<open>A lookup of \<open>POST /fetch\<close> and a poll of \<open>GET /attempts\<close>, in the state after the scenario.\<close>

definition demo_instant :: moment where
  "demo_instant = demo_moment\<lparr>mo_attempts := instantly demo_server\<rparr>"

lemma demo_server_facts:
  "mono (core demo_server) = 0" "wall (core demo_server) = 0" "stage demo_server = Serving"
  "snapshot_holder demo_server = None" "polls demo_server = fmempty" "database_semaphore (memory demo_server) = 1"
  "hm_get (jobs (core demo_server)) 5 = None"
  by (simp_all add: demo_server_def demo_start_def demo_final_def demo_system_def demo_state_def memory_def hm_simps)

theorem serve_refines_witness:
  "\<exists>es t. server_run reference_externals reference_codec table_engine demo_latency es demo_server = Some t \<and>
     memory t = fst (snd (serve reference_externals reference_codec table_engine demo_axum demo_instant
       \<lparr>hr_method = POST, hr_path = ''/trash'', hr_if_none_match = None, hr_body = []\<rparr>
       (memory demo_server) (db (core demo_server))))"
proof -
  let ?req = "\<lparr>hr_method = POST, hr_path = ''/trash'', hr_if_none_match = None, hr_body = []\<rparr> :: http_request"
  obtain r st' d' where run: "serve reference_externals reference_codec table_engine demo_axum demo_instant ?req
      (memory demo_server) (db (core demo_server)) = (r, st', d')"
    by (metis prod_cases3)
  have "dispatch demo_axum ?req = Inr (Fetch_Call (demo_request CHR ''b'') True)"
    by (simp add: dispatch_def routes_def accepts_def call_of_def extract_json_def demo_axum_def BODY_LIMIT_def)
  with serve_refines [OF run, of 5 demo_latency] run show ?thesis
    by (auto simp: demo_server_facts demo_instant_def demo_moment_def hm_simps)
qed

end
