(* ===== verification/Budget.thy ===== *)
theory Budget
  imports Scenario
begin

text \<open>
  Two consequences of the invariant of the server that several properties share: the candidates
  answered in a window belong to that window's account, and the bound on first answers over a
  stretch of time.
\<close>

lemma answered_in_window:
  assumes "limits_ok st" "reachable X E (boot st w m d) s" "(tk, r) \<in> set (answers s)"
  shows "tk_candidate tk \<in>
    window_candidates (system_owners s) (set (answers s)) (tk_id_hash tk) (tk_generation tk)"
proof -
  have "backed (set (answers s)) tk"
    using sys_invD(4) [OF reachable_inv [OF assms(1,2)]] assms(3) by (auto simp: answers_backed_def)
  then obtain tk' r' where "(tk', r') \<in> set (answers s)" "tk_is_new tk'" "tk_key tk' = tk_key tk"
    using assms(3) by (auto simp: backed_def)
  then show ?thesis by (auto simp: window_candidates_def held_def intro!: exI [of _ tk'])
qed

lemma rate_bound:
  assumes "limits_ok st" "reachable X E (boot st w m d) s"
    and "t1 - t0 \<le> rate_limit_cooldown st - 2 * REQUEST_TIMEOUT"
  shows "card {tk_candidate tk | tk r. (tk, r) \<in> set (answers s) \<and> tk_is_new tk \<and> tk_id_hash tk = i \<and>
      t0 \<le> tk_requested_at tk \<and> tk_requested_at tk \<le> t1} \<le> unat (rate_limit_max_attempts st)"
    (is "card ?A \<le> _")
proof (cases "?A = {}")
  case False
  note L = sys_invD(3) [OF reachable_inv [OF assms(1,2)]]
  let ?Q = "system_owners s" and ?H = "set (answers s)"
  from False obtain tk r where tk: "(tk, r) \<in> ?H" "tk_is_new tk" "tk_id_hash tk = i"
      "t0 \<le> tk_requested_at tk" "tk_requested_at tk \<le> t1"
    by blast
  have "?A \<subseteq> window_candidates ?Q ?H i (tk_generation tk)"
  proof clarify
    fix u ru assume u: "(u, ru) \<in> ?H" "tk_is_new u" "i = tk_id_hash u"
      "t0 \<le> tk_requested_at u" "tk_requested_at u \<le> t1"
    have "tk_generation u = tk_generation tk"
      using windows_okD(1) [OF ledger_okD(5) [OF L], of u tk] u tk assms(3) by (force simp: held_def)
    then show "tk_candidate u \<in> window_candidates ?Q ?H (tk_id_hash u) (tk_generation tk)"
      using u by (auto simp: window_candidates_def held_def)
  qed
  moreover have "finite (window_candidates ?Q ?H i (tk_generation tk))"
    using owners_okD(1) [OF ledger_okD(2) [OF L]] by (simp add: finite_window_candidates)
  ultimately show ?thesis
    using windows_okD(2) [OF ledger_okD(5) [OF L], of i "tk_generation tk"] by (meson card_mono order_trans)
qed (simp only: card.empty)

end
