(* ===== verification/Misses.thy ===== *)
theory Misses
  imports Budget
begin

text \<open>
  The failure counter that clients are shown: in every reachable state \<open>failed_candidates\<close> of an
  entry is the number of its committed candidates whose lookup found no row. The proof adds to the
  invariant of \<open>System_Safety\<close> that a finished lookup was recorded and that a candidate has one
  answer in a window.
\<close>

section \<open>The candidates of an entry that missed\<close>

definition missed :: "answers \<Rightarrow> string \<Rightarrow> RateLimitInfo \<Rightarrow> CandidateTag set" where
  "missed H i info = {c \<in> hm_keys (candidates info). hm_get (candidates info) c = Some Committed \<and>
     (\<exists>tk. (tk, None) \<in> H \<and> tk_is_new tk \<and> tk_key tk = (i, window_started_at info, c))}"

definition counts_ok :: "answers \<Rightarrow> RateLimitMap \<Rightarrow> bool" where
  "counts_ok H m \<longleftrightarrow>
     (\<forall>i info. hm_get m i = Some info \<longrightarrow> unat (failed_candidates info) = card (missed H i info))"

text \<open>Updates that leave counter, window and committed candidates of the entries alone.\<close>

definition same_commits :: "RateLimitInfo \<Rightarrow> RateLimitInfo \<Rightarrow> bool" where
  "same_commits info info' \<longleftrightarrow> failed_candidates info' = failed_candidates info \<and>
     window_started_at info' = window_started_at info \<and>
     (\<forall>c. (hm_get (candidates info') c = Some Committed) = (hm_get (candidates info) c = Some Committed))"

lemma missed_same: "same_commits info info' \<Longrightarrow> missed H i info' = missed H i info"
  by (auto simp: missed_def same_commits_def hm_keys_get)

lemma counts_ok_subset:
  "counts_ok H m \<Longrightarrow> (\<And>i info. hm_get m' i = Some info \<Longrightarrow> hm_get m i = Some info) \<Longrightarrow> counts_ok H m'"
  unfolding counts_ok_def by blast

lemma counts_ok_insert:
  assumes "counts_ok H m" "hm_get m i = Some info" "same_commits info info'"
  shows "counts_ok H (hm_insert i info' m)"
  using assms missed_same [OF assms(3)] by (auto simp: counts_ok_def hm_simps same_commits_def)

lemma counts_ok_new:
  assumes "counts_ok H m" "failed_candidates info = 0" "\<And>c. hm_get (candidates info) c \<noteq> Some Committed"
  shows "counts_ok H (hm_insert i info m)"
proof -
  have "missed H i info = {}" using assms(3) by (auto simp: missed_def)
  then show ?thesis using assms(1,2) by (auto simp: counts_ok_def hm_simps)
qed

lemma counts_expires: "expires cd w m m' \<Longrightarrow> counts_ok H m \<Longrightarrow> counts_ok H m'"
  by (erule counts_ok_subset) (simp add: expires_def)

section \<open>The updates of the map\<close>

lemma decide_same: "same_commits info (snd (decide cd a c now info))"
  by (auto simp: decide_def same_commits_def hm_simps Let_def split: option.splits CandidateState.splits if_splits)

lemma counts_admit:
  assumes "counts_ok H m"
  shows "counts_ok H (snd (admit cd a b i c now m))"
proof -
  let ?m = "snd (make_room cd b i now (drop_expired cd i now m))"
  let ?info = "snd (decide cd a c now (touch_entry i now ?m))"
  have m: "counts_ok H ?m"
    by (rule counts_expires [OF expires_trans [OF expires_drop [where w = now] expires_make_room [where w = now]] assms])
      simp_all
  have "counts_ok H (hm_insert i ?info ?m)"
  proof (cases "hm_get ?m i")
    case (Some info)
    then have "same_commits info ?info"
      using decide_same [of "touch_entry i now ?m" cd a c now] by (simp add: touch_entry_def same_commits_def Let_def)
    then show ?thesis using counts_ok_insert [OF m Some] by blast
  next
    case None
    then show ?thesis
      using decide_same [of "touch_entry i now ?m" cd a c now]
      by (intro counts_ok_new [OF m])
        (simp_all add: touch_entry_def same_commits_def Let_def RateLimitInfo_new_def hm_simps)
  qed
  then show ?thesis using m by (simp add: admit_def Let_def split_beta)
qed

lemma counts_remove_pending:
  assumes "counts_ok H m"
  shows "counts_ok H (remove_pending i c g m)"
proof (cases "hm_get m i")
  case None
  then show ?thesis using assms by (simp add: remove_pending_def)
next
  case (Some info)
  let ?info = "if window_started_at info = g \<and> hm_get (candidates info) c = Some Pending
    then info\<lparr>candidates := hm_remove c (candidates info)\<rparr> else info"
  have "same_commits info ?info" by (auto simp: same_commits_def hm_simps)
  from counts_ok_insert [OF assms Some this] have "counts_ok H (hm_insert i ?info m)" .
  moreover from this have "counts_ok H (hm_remove i (hm_insert i ?info m))"
    by (rule counts_ok_subset) (simp add: hm_simps split: if_splits)
  ultimately show ?thesis using Some by (simp add: remove_pending_def Let_def)
qed

text \<open>Finalizing an answered ticket, when the answer is the only one of its candidate and window.\<close>

definition answers_unique :: "answers \<Rightarrow> bool" where
  "answers_unique H \<longleftrightarrow>
     (\<forall>tk r tk' r'. (tk, r) \<in> H \<and> (tk', r') \<in> H \<and> tk_is_new tk \<and> tk_is_new tk' \<and> tk_key tk = tk_key tk' \<longrightarrow> r = r')"

lemma missed_commit:
  assumes "answers_unique H" "hm_get (candidates info) c = Some Pending"
    and "(tk, found) \<in> H" "tk_is_new tk" "tk_key tk = (i, window_started_at info, c)"
    and info': "candidates info' = hm_insert c Committed (candidates info)"
      "window_started_at info' = window_started_at info"
  shows "missed H i info' = (if found = None then insert c (missed H i info) else missed H i info)"
    and "c \<notin> missed H i info"
proof -
  have "(\<exists>tk'. (tk', None) \<in> H \<and> tk_is_new tk' \<and> tk_key tk' = (i, window_started_at info, c)) \<longleftrightarrow> found = None"
    using assms(1,3-5) unfolding answers_unique_def by metis
  then show "missed H i info' = (if found = None then insert c (missed H i info) else missed H i info)"
    by (auto simp: missed_def hm_simps hm_keys_get info' assms(2) split: if_splits)
  show "c \<notin> missed H i info" by (simp add: missed_def assms(2))
qed

lemma counts_commit:
  assumes C: "counts_ok H m" and wf: "map_wf a b (finalize i c g (Inr found) m)"
    and H: "answers_unique H" "(tk, found) \<in> H" "tk_is_new tk" "tk_key tk = (i, g, c)"
  shows "counts_ok H (finalize i c g (Inr found) m)"
proof (cases "\<exists>info. hm_get m i = Some info \<and> window_started_at info = g \<and> hm_get (candidates info) c = Some Pending")
  case False
  then have "finalize i c g (Inr found) m = m" by (auto simp: finalize_def split: option.splits)
  then show ?thesis using C by simp
next
  case True
  then obtain info where info: "hm_get m i = Some info" "window_started_at info = g"
      "hm_get (candidates info) c = Some Pending" by blast
  let ?info = "info\<lparr>candidates := hm_insert c Committed (candidates info),
      failed_candidates := if found = None then saturating_add (failed_candidates info) 1 else failed_candidates info\<rparr>"
  have m: "finalize i c g (Inr found) m = hm_insert i ?info m"
    using info by (cases found) (simp_all add: finalize_def)
  have missed: "missed H i ?info = (if found = None then insert c (missed H i info) else missed H i info)"
      "c \<notin> missed H i info"
    using missed_commit [OF H(1) info(3) H(2,3), of i ?info] H(4) info(2) by simp_all
  have fin: "finite (missed H i info)" by (simp add: missed_def)
  have old: "unat (failed_candidates info) = card (missed H i info)"
    using C info(1) by (simp add: counts_ok_def)
  have "card (missed H i ?info) \<le> hm_len (candidates ?info)"
    by (auto simp: hm_len_keys missed_def intro: card_mono)
  also have "\<dots> < 256"
    using map_wf_get [OF wf, of i ?info] unat_less_256 [of a] by (simp add: m hm_simps info_wf_def budget_ok_def)
  finally have "unat (failed_candidates ?info) = card (missed H i ?info)"
    using old missed fin by (auto simp: unat_saturating_add)
  then show ?thesis using C by (auto simp: m counts_ok_def hm_simps)
qed

section \<open>The events of the server\<close>

definition finished_recorded :: "'db System \<Rightarrow> bool" where
  "finished_recorded s \<longleftrightarrow>
     (\<forall>j tk found attached. hm_get (jobs s) j = Some (Finalizing tk (Inr found) attached) \<longrightarrow>
        (tk, found) \<in> set (answers s))"

definition miss_inv :: "externals \<Rightarrow> AppState \<Rightarrow> 'db System \<Rightarrow> bool" where
  "miss_inv X st s \<longleftrightarrow> sys_inv X st s \<and> answers_unique (set (answers s)) \<and> finished_recorded s \<and>
     counts_ok (set (answers s)) (identifier_rate_limit (app s))"

lemma counts_state:
  "counts_ok H (identifier_rate_limit st) \<Longrightarrow> counts_ok H (identifier_rate_limit (release_ticket tk st))"
  "counts_ok H (identifier_rate_limit st) \<Longrightarrow> counts_ok H (identifier_rate_limit (snd (admit_state st i c now)))"
  "counts_ok H (identifier_rate_limit st) \<Longrightarrow> counts_ok H (identifier_rate_limit (sweep_state now st))"
  using counts_admit [of H "identifier_rate_limit st"] counts_expires [OF expires_sweep [where w = now, OF order_refl]]
  by (auto simp: release_ticket_def counts_remove_pending admit_state_def sweep_state_def Let_def split_beta)

lemma entry_step_map:
  "identifier_rate_limit (snd (fetch_entry_step X request now st)) = identifier_rate_limit st"
  "identifier_rate_limit (snd (store_entry_step X store_request now created st)) = identifier_rate_limit st"
  by (auto simp: fetch_entry_step_def store_entry_step_def Let_def split_beta take_store_token_def
      split: sum.splits option.splits)

text \<open>
  An event that is neither a lookup nor a finalization keeps the counters, records no answer, and
  starts no finalization.
\<close>

lemma quiet_steps:
  assumes "system_step X E e s = Some t" "\<And>j. e \<noteq> Query j" "\<And>j. e \<noteq> Finalize j"
  shows "answers t = answers s \<and>
    (counts_ok H (identifier_rate_limit (app s)) \<longrightarrow> counts_ok H (identifier_rate_limit (app t))) \<and>
    (\<forall>j tk r b. hm_get (jobs t) j = Some (Finalizing tk r b) \<longrightarrow>
       (\<exists>b'. hm_get (jobs s) j = Some (Finalizing tk r b')))"
proof (cases e)
  case (Admit j)
  then show ?thesis
    using assms(1) counts_state(2) [of H "app s"]
    by (auto simp: step_admit_def set_job_def hm_simps Let_def split_beta phase_after_admission_def
        split: option.splits phase.splits if_splits admit_result.splits)
next
  case (Cancel j b)
  then show ?thesis
    using assms(1) counts_state(1) [of H "app s"]
    by (auto simp: step_cancel_def drop_guard_def set_job_def hm_simps
        split: option.splits phase.splits if_splits bool.splits)
next
  case (Sweep n)
  then show ?thesis using assms(1) counts_state(3) [of H "app s"] by (auto simp: step_sweep_def)
next
  case (Snapshot_Retain n)
  then show ?thesis using assms(1) counts_state(3) [of H "app s"] by (auto simp: step_sweep_def)
next
  case (Lookup_Token j)
  then show ?thesis
    using assms(1) entry_step_map
    by (auto simp: step_lookup_token_def set_job_def hm_simps Let_def split_beta
        split: option.splits phase.splits if_splits fetch_entry.splits)
next
  case (Store_Token j created)
  then show ?thesis
    using assms(1) entry_step_map
    by (auto simp: step_store_token_def set_job_def hm_simps Let_def split_beta
        split: option.splits phase.splits if_splits sum.splits)
next
  case (Timeout_Cleanup j)
  then show ?thesis
    using assms(1) counts_state(1) [of H "app s"]
    by (auto simp: step_timeout_cleanup_def set_job_def hm_simps split: option.splits phase.splits if_splits)
next
  case (Run_Deferred j)
  then show ?thesis
    using assms(1) counts_state(1) [of H "app s"]
    by (auto simp: step_run_deferred_def set_job_def hm_simps split: option.splits phase.splits if_splits)
qed (use assms in \<open>auto simp: step_tick_def step_arrive_def step_permit_def step_permit_timed_out_def step_answer_def
      step_store_permit_def step_store_permit_timed_out_def step_store_write_def step_store_answer_def
      set_job_def hm_simps Let_def split_beta split: option.splits phase.splits if_splits\<close>)

text \<open>Only the answers to new tickets count.\<close>

lemma new_answers_only:
  assumes "\<And>u f. tk_is_new u \<Longrightarrow> (u, f) \<in> H' \<longleftrightarrow> (u, f) \<in> H"
  shows "answers_unique H' = answers_unique H" and "missed H' i info = missed H i info"
proof -
  have "answers_unique K = (\<forall>tk r tk' r'. tk_is_new tk \<longrightarrow> tk_is_new tk' \<longrightarrow> tk_key tk = tk_key tk' \<longrightarrow>
      (tk, r) \<in> K \<longrightarrow> (tk', r') \<in> K \<longrightarrow> r = r')" for K
    unfolding answers_unique_def by blast
  then show "answers_unique H' = answers_unique H" by (simp add: assms cong: imp_cong)
  have "(\<exists>tk. (tk, None) \<in> H' \<and> tk_is_new tk \<and> k tk) = (\<exists>tk. (tk, None) \<in> H \<and> tk_is_new tk \<and> k tk)" for k
    using assms by blast
  then show "missed H' i info = missed H i info" by (simp add: missed_def)
qed

lemma query_facts:
  assumes "step_query E j s = Some t"
  obtains tk attached r where "hm_get (jobs s) j = Some (Querying tk attached)"
    "jobs t = hm_insert j (Finalizing tk r attached) (jobs s)" "answers t = record_answer tk r (answers s)"
    "identifier_rate_limit (app t) = identifier_rate_limit (app s)"
  using assms by (auto simp: step_query_def set_job_def Let_def split_beta split: option.splits phase.splits)

lemma finalize_facts:
  assumes "step_finalize j s = Some t"
  obtains tk attached r where "hm_get (jobs s) j = Some (Finalizing tk r attached)"
    "jobs t = hm_insert j (if attached then Answering tk r else Gone) (jobs s)" "answers t = answers s"
    "app t = finalize_ticket tk r (app s)"
  using assms by (auto simp: step_finalize_def set_job_def split: option.splits phase.splits)

text \<open>A new answer is for a candidate that has none yet and is still \<open>Pending\<close>.\<close>

lemma query_miss_inv:
  assumes I: "miss_inv X st s" and t: "step_query E j s = Some t"
  shows "answers_unique (set (answers t)) \<and> finished_recorded t \<and>
    counts_ok (set (answers t)) (identifier_rate_limit (app t))"
proof -
  have S: "sys_inv X st s" and U: "answers_unique (set (answers s))" and R: "finished_recorded s"
    and C: "counts_ok (set (answers s)) (identifier_rate_limit (app s))"
    using I by (simp_all add: miss_inv_def)
  from t obtain tk attached r where j: "hm_get (jobs s) j = Some (Querying tk attached)"
      "jobs t = hm_insert j (Finalizing tk r attached) (jobs s)" "answers t = record_answer tk r (answers s)"
      "identifier_rate_limit (app t) = identifier_rate_limit (app s)"
    by (rule query_facts)
  have R': "finished_recorded t"
    using R j(2,3) by (auto simp: finished_recorded_def hm_simps record_answer_def split: sum.splits if_splits)
  show ?thesis
  proof (cases "tk_is_new tk \<and> (\<exists>found. r = Inr found)")
    case False
    then have "(u, f) \<in> set (answers t) \<longleftrightarrow> (u, f) \<in> set (answers s)" if "tk_is_new u" for u f
      using j(3) that by (auto simp: record_answer_def split: sum.splits)
    note same = new_answers_only [of "set (answers t)" "set (answers s)", OF this]
    show ?thesis using U C R' j(4) by (simp add: counts_ok_def same)
  next
    case True
    then obtain found where found: "r = Inr found" and new: "tk_is_new tk" by blast
    have H: "set (answers t) = insert (tk, found) (set (answers s))" using j(3) found by (simp add: record_answer_def)
    have own: "system_owners s j = Some (tk, False)" using owners_job [OF j(1)] new by simp
    have none: "tk_key u \<noteq> tk_key tk" if "(u, f) \<in> set (answers s)" "tk_is_new u" for u f
      using answers_okD(2) [OF ledger_okD(3) [OF sys_invD(3) [OF S]] own that] .
    have "answers_unique (set (answers t))"
      using U none unfolding answers_unique_def H by (metis insert_iff prod.inject)
    moreover have "missed (set (answers t)) i info = missed (set (answers s)) i info"
      if "hm_get (identifier_rate_limit (app s)) i = Some info" for i info
    proof -
      have "hm_get (candidates info) (tk_candidate tk) = Some Pending"
        if "tk_key tk = (i, window_started_at info, tk_candidate tk)"
        using owners_okD(3) [OF ledger_okD(2) [OF sys_invD(3) [OF S]] own] that
          \<open>hm_get (identifier_rate_limit (app s)) i = Some info\<close> by auto
      then show ?thesis by (auto simp: missed_def H)
    qed
    ultimately show ?thesis using C R' j(4) by (simp add: counts_ok_def)
  qed
qed

lemma finalize_miss_inv:
  assumes I: "miss_inv X st s" and t: "step_finalize j s = Some t"
  shows "answers t = answers s \<and> finished_recorded t \<and>
    counts_ok (set (answers s)) (identifier_rate_limit (app t))"
proof -
  have S: "sys_inv X st s" and U: "answers_unique (set (answers s))" and R: "finished_recorded s"
    and C: "counts_ok (set (answers s)) (identifier_rate_limit (app s))"
    using I by (simp_all add: miss_inv_def)
  note wf = ledger_okD(1) [OF sys_invD(3) [OF S]]
  from t obtain tk attached r where j: "hm_get (jobs s) j = Some (Finalizing tk r attached)"
      "jobs t = hm_insert j (if attached then Answering tk r else Gone) (jobs s)" "answers t = answers s"
      "app t = finalize_ticket tk r (app s)"
    by (rule finalize_facts)
  have "finished_recorded t" using R j(2,3) by (auto simp: finished_recorded_def hm_simps split: if_splits)
  moreover have "counts_ok (set (answers s)) (identifier_rate_limit (app t))"
  proof (cases "tk_is_new tk")
    case False
    then show ?thesis using C j(4) by (simp add: finalize_ticket_def)
  next
    case True
    show ?thesis
    proof (cases r)
      case (Inl x)
      then show ?thesis
        using True C j(4) finalize_error_eq [OF wf] by (simp add: finalize_ticket_def counts_remove_pending)
    next
      case (Inr found)
      then have "(tk, found) \<in> set (answers s)" using R j(1) unfolding finished_recorded_def by blast
      then show ?thesis
        using True Inr j(4) counts_commit [OF C finalize_wf [OF wf] U] by (simp add: finalize_ticket_def)
    qed
  qed
  ultimately show ?thesis using j(3) by simp
qed

lemma step_miss_inv:
  assumes I: "miss_inv X st s" and t: "system_step X E e s = Some t"
  shows "miss_inv X st t"
proof -
  have "sys_inv X st t" using system_step_inv [OF _ t] I by (simp add: miss_inv_def)
  moreover consider (query) j where "e = Query j" | (finish) j where "e = Finalize j"
    | (quiet) "\<And>j. e \<noteq> Query j" "\<And>j. e \<noteq> Finalize j"
    by blast
  then have "answers_unique (set (answers t)) \<and> finished_recorded t \<and>
    counts_ok (set (answers t)) (identifier_rate_limit (app t))"
  proof cases
    case query
    then show ?thesis using query_miss_inv [OF I] t by simp
  next
    case (finish j)
    then show ?thesis using finalize_miss_inv [OF I, of j t] t I by (simp add: miss_inv_def)
  next
    case quiet
    from quiet_steps [OF t quiet, of "set (answers s)"] I show ?thesis
      by (fastforce simp: miss_inv_def finished_recorded_def)
  qed
  ultimately show ?thesis by (simp add: miss_inv_def)
qed

interpretation counting: guarded_machine "system_step X E" "miss_inv X st" for X E st
  by unfold_locales (rule step_miss_inv)

lemma boot_miss_inv: "limits_ok st \<Longrightarrow> miss_inv X st (boot st w m d)"
  by (simp add: miss_inv_def boot_inv)
    (simp add: boot_def answers_unique_def finished_recorded_def counts_ok_def hm_simps)

section \<open>The failure counter\<close>

text \<open>
  C9. The failure counter is exact: in every reachable state, \<open>failed_candidates\<close> of an entry is the
  number of distinct candidates committed in its window whose one lookup found no row; errors,
  replays, timeouts and cancellations are never counted, and a miss is counted once.
\<close>

theorem failed_counter_exact:
  assumes "limits_ok st" "reachable X E (boot st w m d) s"
    and "hm_get (identifier_rate_limit (app s)) i = Some info"
  shows "unat (failed_candidates info) = card (missed (set (answers s)) i info)"
  using counting.reach_inv [OF assms(2) boot_miss_inv [OF assms(1)]] assms(3)
  by (simp add: miss_inv_def counts_ok_def)

theorem failed_counter_exact_witness: "card (missed (set (answers demo_final)) demo_hash demo_info) = 1"
proof -
  have "hm_get (identifier_rate_limit (app demo_final)) demo_hash = Some demo_info"
    by (simp add: demo_final_def demo_system_def hm_simps)
  from failed_counter_exact [OF demo_limits demo_reachable this] show ?thesis
    by (simp add: demo_info_def)
qed

end
