(* ===== verification/Retention.thy ===== *)
theory Retention
  imports Server_Scenario Misses
begin

text \<open>
  How long the server remembers an identifier. The sweeper of \<open>src/rate_limit.rs\<close> runs as a task of
  the server: with a scheduler that is never later than \<open>latency\<close>, no entry of the rate-limit map
  survives its cooldown by more than a request, a sweep interval and twice that latency.
\<close>

section \<open>Where the date of an entry comes from\<close>

text \<open>Every entry of the new map has the date of an old one, or a date that is not before \<open>lo\<close>.\<close>

definition dated :: "DateTime \<Rightarrow> RateLimitMap \<Rightarrow> RateLimitMap \<Rightarrow> bool" where
  "dated lo m m' \<longleftrightarrow> (\<forall>i info'. hm_get m' i = Some info' \<longrightarrow> lo \<le> last_candidate_at info' \<or>
     (\<exists>info. hm_get m i = Some info \<and> last_candidate_at info' = last_candidate_at info))"

lemma dated_refl: "dated lo m m"
  by (auto simp: dated_def)

lemma dated_sub: "(\<And>i info. hm_get m' i = Some info \<Longrightarrow> hm_get m i = Some info) \<Longrightarrow> dated lo m m'"
  by (auto simp: dated_def)

lemma dated_insert:
  assumes "dated lo m m'" "lo \<le> last_candidate_at v \<or> (\<exists>info. hm_get m i = Some info \<and> last_candidate_at v = last_candidate_at info)"
  shows "dated lo m (hm_insert i v m')"
  using assms by (auto simp: dated_def hm_simps)

lemma dated_remove: "dated lo m m' \<Longrightarrow> dated lo m (hm_remove i m')"
  by (auto simp: dated_def hm_simps)

lemma dated_retain: "dated lo m (hm_retain P m)"
  by (rule dated_sub) (auto simp: hm_simps split: option.splits if_splits)

lemma dated_remove_pending: "dated lo m (remove_pending i c g m)"
  by (auto simp: remove_pending_def Let_def split: option.splits
      intro!: dated_remove dated_insert dated_refl)

lemma dated_finalize: "dated lo m (finalize i c g r m)"
  by (auto simp: finalize_def Let_def dated_remove_pending split: option.splits sum.splits
      intro!: dated_insert dated_refl dated_remove dated_remove_pending)

lemma dated_admit: "dated now m (snd (admit cd a b i c now m))"
proof -
  let ?m = "snd (make_room cd b i now (drop_expired cd i now m))"
  let ?e = "touch_entry i now ?m"
  have sub: "hm_get ?m k = Some info \<Longrightarrow> hm_get m k = Some info" for k info
    by (auto simp: make_room_def drop_expired_def Let_def hm_simps split: option.splits if_splits)
  then have "dated now m ?m" by (rule dated_sub)
  moreover have "now \<le> last_candidate_at ?e \<or> (\<exists>info. hm_get m i = Some info \<and> last_candidate_at ?e = last_candidate_at info)"
    using sub [of i] by (auto simp: touch_entry_def RateLimitInfo_new_def Let_def split: option.splits)
  ultimately have "dated now m (hm_insert i (snd (decide cd a c now ?e)) ?m)"
    using decide_last_candidate [of cd a c now ?e] by (intro dated_insert) auto
  with \<open>dated now m ?m\<close> show ?thesis by (simp add: admit_def Let_def split_beta)
qed

lemma dated_mono: "dated lo m m' \<Longrightarrow> lo' \<le> lo \<Longrightarrow> dated lo' m m'"
  by (force simp: dated_def)

lemma ticket_dated:
  "dated lo (identifier_rate_limit st) (identifier_rate_limit (release_ticket tk st))"
  "dated lo (identifier_rate_limit st) (identifier_rate_limit (finalize_ticket tk r st))"
  by (simp_all add: release_ticket_def finalize_ticket_def dated_remove_pending dated_finalize dated_refl)

text \<open>A step of a lookup or a store dates no entry further back than a request may take.\<close>

lemma core_step_dated:
  assumes "system_step X E e s = Some t"
  shows "dated (wall s - REQUEST_TIMEOUT) (identifier_rate_limit (app s)) (identifier_rate_limit (app t))"
proof (cases e)
  case (Admit j)
  then show ?thesis
    using assms dated_mono [OF dated_admit]
    by (auto simp: step_admit_def set_job_def Let_def split_beta split: option.splits phase.splits if_splits)
next
  case (Lookup_Token j)
  then show ?thesis
    using assms by (auto simp: step_lookup_token_def set_job_def entry_step_map dated_refl Let_def split_beta
        split: option.splits phase.splits)
next
  case (Store_Token j created)
  then show ?thesis
    using assms by (auto simp: step_store_token_def set_job_def entry_step_map dated_refl Let_def split_beta
        split: option.splits phase.splits)
next
  case (Cancel j b)
  then show ?thesis
    using assms by (auto simp: step_cancel_def drop_guard_def set_job_def dated_refl ticket_dated
        split: option.splits phase.splits bool.splits)
next
  case (Sweep n)
  then show ?thesis
    using assms by (auto simp: step_sweep_def sweep_state_def sweep_expired_identifiers_def dated_retain)
next
  case (Snapshot_Retain n)
  then show ?thesis
    using assms by (auto simp: step_sweep_def sweep_state_def sweep_expired_identifiers_def dated_retain)
qed (use assms in \<open>auto simp: step_tick_def step_arrive_def step_permit_def step_permit_timed_out_def
    step_timeout_cleanup_def step_run_deferred_def step_query_def step_finalize_def step_answer_def
    step_store_permit_def step_store_permit_timed_out_def step_store_write_def step_store_answer_def
    set_job_def dated_refl ticket_dated Let_def split_beta split: option.splits phase.splits if_splits\<close>)

lemma core_step_cooldown:
  assumes "system_step X E e s = Some t"
  shows "rate_limit_cooldown (app t) = rate_limit_cooldown (app s)"
proof -
  have "rate_limit_cooldown (snd (fetch_entry_step X request now st)) = rate_limit_cooldown st"
    "rate_limit_cooldown (snd (store_entry_step X request' now created st)) = rate_limit_cooldown st"
    for X request now created st and request' :: StoreSecret
    by (simp_all add: fetch_entry_step_def store_entry_step_def Let_def split_beta split: sum.splits option.splits)
  then show ?thesis
    using assms by (cases e)
      (auto simp: set_job_def step_tick_def step_sweep_def sweep_state_def step_arrive_def step_lookup_token_def
        step_admit_def step_permit_def step_permit_timed_out_def step_timeout_cleanup_def step_cancel_def
        drop_guard_def step_run_deferred_def step_query_def step_finalize_def step_answer_def step_store_token_def
        step_store_permit_def step_store_permit_timed_out_def step_store_write_def step_store_answer_def
        acquire_permit_def release_permit_def release_ticket_def finalize_ticket_def
        Let_def split_beta split: option.splits phase.splits bool.splits if_splits)
qed

section \<open>The sweeper\<close>

text \<open>
  \<open>ahead\<close> is the offset of the wall clock on the monotonic one. While the sweeper sleeps, no entry is
  older than a \<open>lifetime\<close> at the next deadline, nor now, up to the latency of its start; while it waits
  for the lock, none was at the time it read, up to the same latency.
\<close>

definition lifetime :: "AppState \<Rightarrow> int" where
  "lifetime st = rate_limit_cooldown st + REQUEST_TIMEOUT + int SWEEP_INTERVAL"

definition retention_ok :: "nat \<Rightarrow> AppState \<Rightarrow> int \<Rightarrow> 'db Server \<Rightarrow> bool" where
  "retention_ok latency st ahead s \<longleftrightarrow>
     rate_limit_cooldown (memory s) = rate_limit_cooldown st \<and>
     wall (core s) = ahead + int (mono (core s)) \<and> sweep_due s \<le> mono (core s) + SWEEP_INTERVAL \<and>
     (case sweep_task s of
        Sleeping \<Rightarrow>
          (\<forall>i info. hm_get (identifier_rate_limit (memory s)) i = Some info \<longrightarrow>
             ahead + int (sweep_due s) \<le> last_candidate_at info + lifetime st \<and>
             wall (core s) \<le> last_candidate_at info + lifetime st + int latency)
      | Locking now \<Rightarrow> now \<le> wall (core s) \<and> wall (core s) \<le> now + int latency \<and>
          ahead + int (sweep_due s) \<le> now + int SWEEP_INTERVAL \<and>
          (\<forall>i info. hm_get (identifier_rate_limit (memory s)) i = Some info \<longrightarrow>
             now \<le> last_candidate_at info + lifetime st + int latency))"

lemma retention_bound:
  assumes "retention_ok latency st ahead s" "hm_get (identifier_rate_limit (memory s)) i = Some info"
  shows "wall (core s) \<le> last_candidate_at info + lifetime st + 2 * int latency"
proof (cases "sweep_task s")
  case Sleeping
  then have "wall (core s) \<le> last_candidate_at info + lifetime st + int latency"
    using assms by (auto simp: retention_ok_def)
  then show ?thesis by linarith
next
  case (Locking now)
  then have "wall (core s) \<le> now + int latency" "now \<le> last_candidate_at info + lifetime st + int latency"
    using assms by (auto simp: retention_ok_def)
  then show ?thesis by linarith
qed

text \<open>A step that leaves the sweeper and the clocks alone and dates its entries as above.\<close>

lemma retention_frame:
  assumes "retention_ok latency st ahead s" "0 \<le> rate_limit_cooldown st"
    and "dated (wall (core s) - REQUEST_TIMEOUT) (identifier_rate_limit (memory s)) (identifier_rate_limit (memory t))"
    and "rate_limit_cooldown (memory t) = rate_limit_cooldown (memory s)" "wall (core t) = wall (core s)"
    and "mono (core t) = mono (core s)" "sweep_task t = sweep_task s" "sweep_due t = sweep_due s"
  shows "retention_ok latency st ahead t"
proof -
  have old: "\<exists>k. k \<le> last_candidate_at info \<and> (k = wall (core s) - REQUEST_TIMEOUT \<or>
      (\<exists>info'. hm_get (identifier_rate_limit (memory s)) i = Some info' \<and> k = last_candidate_at info'))"
    if "hm_get (identifier_rate_limit (memory t)) i = Some info" for i info
    using assms(3) that unfolding dated_def by (metis order_refl)
  show ?thesis
  proof (cases "sweep_task s")
    case Sleeping
    have "ahead + int (sweep_due s) \<le> last_candidate_at info + lifetime st \<and>
        wall (core s) \<le> last_candidate_at info + lifetime st + int latency"
      if entry: "hm_get (identifier_rate_limit (memory t)) i = Some info" for i info
    proof -
      obtain k where k: "k \<le> last_candidate_at info" "k = wall (core s) - REQUEST_TIMEOUT \<or>
          (\<exists>info'. hm_get (identifier_rate_limit (memory s)) i = Some info' \<and> k = last_candidate_at info')"
        using old [OF entry] by blast
      from k(2) have "ahead + int (sweep_due s) \<le> k + lifetime st \<and> wall (core s) \<le> k + lifetime st + int latency"
        using Sleeping assms(1,2) by (auto simp: retention_ok_def lifetime_def)
      with k(1) show ?thesis by linarith
    qed
    with Sleeping show ?thesis using assms by (simp add: retention_ok_def)
  next
    case (Locking now)
    have "now \<le> last_candidate_at info + lifetime st + int latency"
      if entry: "hm_get (identifier_rate_limit (memory t)) i = Some info" for i info
    proof -
      obtain k where k: "k \<le> last_candidate_at info" "k = wall (core s) - REQUEST_TIMEOUT \<or>
          (\<exists>info'. hm_get (identifier_rate_limit (memory s)) i = Some info' \<and> k = last_candidate_at info')"
        using old [OF entry] by blast
      from k(2) have "now \<le> k + lifetime st + int latency"
        using Locking assms(1,2) by (auto simp: retention_ok_def lifetime_def)
      with k(1) show ?thesis by linarith
    qed
    with Locking show ?thesis using assms by (simp add: retention_ok_def)
  qed
qed

lemma step_retention_ok:
  assumes ok: "retention_ok L st ahead s" and cd: "0 \<le> rate_limit_cooldown st"
    and step: "server_step X C E L e s = Some t"
  shows "retention_ok L st ahead t"
proof (cases e)
  case (Core ev)
  then obtain c where c: "t = s\<lparr>core := c\<rparr>" "system_step X E ev (core s) = Some c" "\<not> is_background ev"
    using server_stepD [OF step] by (auto elim!: step_core_app)
  then show ?thesis
    using core_step_dated [OF c(2)] core_step_clocks [OF c(2,3)] core_step_cooldown [OF c(2)]
    by (intro retention_frame [OF ok cd]) (simp_all add: memory_def)
next
  case (Pass n)
  have "wall (core s) + int n \<le> last_candidate_at info + lifetime st + int L"
    if "hm_get (identifier_rate_limit (memory s)) i = Some info" "sweep_task s = Sleeping" for i info
  proof -
    have "mono (core s) + n \<le> sweep_due s + L"
      using server_stepD [OF step] Pass that(2) by (simp add: step_pass_def split: if_splits)
    moreover have "ahead + int (sweep_due s) \<le> last_candidate_at info + lifetime st"
        "wall (core s) = ahead + int (mono (core s))"
      using ok that by (auto simp: retention_ok_def)
    ultimately show ?thesis by linarith
  qed
  then show ?thesis
    using ok server_stepD [OF step] Pass
    by (auto simp: step_pass_def step_tick_def retention_ok_def memory_def split: if_splits sweeper.splits)
next
  case (Sweeper_Wake next_due)
  then have "t = s\<lparr>sweep_task := Locking (wall (core s)), sweep_due := next_due\<rparr>" "sweep_task s = Sleeping"
      "next_due \<le> mono (core s) + SWEEP_INTERVAL"
    using server_stepD [OF step] by (auto simp: step_sweeper_wake_def split: if_splits)
  moreover have "wall (core s) \<le> last_candidate_at info + lifetime st + int L"
    if "hm_get (identifier_rate_limit (memory s)) i = Some info" for i info
    using ok that \<open>sweep_task s = Sleeping\<close> by (force simp: retention_ok_def)
  ultimately show ?thesis using ok by (simp add: retention_ok_def)
next
  case Sweeper_Run
  then obtain now where now: "sweep_task s = Locking now"
      "t = set_memory (sweep_state now (memory s)) (s\<lparr>sweep_task := Sleeping\<rparr>)"
    using server_stepD [OF step] by (auto simp: step_sweeper_run_def split: sweeper.splits)
  have "ahead + int (sweep_due s) \<le> last_candidate_at info + lifetime st \<and>
      wall (core s) \<le> last_candidate_at info + lifetime st + int L"
    if "hm_get (identifier_rate_limit (memory t)) i = Some info" for i info
  proof -
    have "now \<le> last_candidate_at info + rate_limit_cooldown st"
      using ok that now(2)
      by (auto simp: retention_ok_def sweep_state_def sweep_expired_identifiers_def active_def hm_simps
          split: option.splits if_splits)
    moreover have "wall (core s) \<le> now + int L" "ahead + int (sweep_due s) \<le> now + int SWEEP_INTERVAL"
      using ok now(1) by (simp_all add: retention_ok_def)
    ultimately show ?thesis using REQUEST_TIMEOUT_nonneg unfolding lifetime_def by (intro conjI; linarith)
  qed
  then show ?thesis using ok now by (simp add: retention_ok_def sweep_state_def)
qed (use server_stepD [OF step] in \<open>auto simp: step_poll_arrive_def step_poll_token_def step_poll_lock_def
    step_poll_collect_def step_poll_compressed_def step_poll_reply_def step_poll_cancel_def step_info_answer_def
    step_signal_def step_stop_def collect_snapshot_def take_attempts_token_def get_info_def live_canary_def
    Let_def split_beta dated_refl dated_retain split: option.splits poll.splits sum.splits bool.splits if_splits
    intro!: retention_frame [OF ok cd]\<close>)

interpretation retention: guarded_machine "server_step X C E L"
    "\<lambda>s. 0 \<le> rate_limit_cooldown st \<and> retention_ok L st ahead s" for X C E L st ahead
  by unfold_locales (auto intro: step_retention_ok)

lemma boot_retention_ok: "retention_ok L st (w - int m) (server_boot st w m d)"
  by (simp add: retention_ok_def memory_def boot_def hm_simps)

text \<open>
  C7. Identifiers are forgotten: when the scheduler starts the sweeper and hands it the lock of the map
  within \<open>L\<close> of its deadline, no reachable state of the server holds an entry whose last candidate is
  older than the cooldown, a request timeout, a sweep interval and twice \<open>L\<close>, whether or not the
  identifier is ever requested again.
\<close>

theorem identifiers_forgotten:
  assumes "limits_ok st" "server_reachable X C E L (server_boot st w m d) s"
    and "hm_get (identifier_rate_limit (memory s)) i = Some info"
  shows "wall (core s) \<le> last_candidate_at info + rate_limit_cooldown st + REQUEST_TIMEOUT +
    int SWEEP_INTERVAL + 2 * int L"
proof -
  have "0 \<le> rate_limit_cooldown st" using assms(1) by (simp add: limits_ok_def)
  then have "0 \<le> rate_limit_cooldown st \<and> retention_ok L st (w - int m) s"
    using boot_retention_ok by (intro retention.reach_inv [OF assms(2)] conjI)
  then have "retention_ok L st (w - int m) s" ..
  from retention_bound [OF this assms(3)] show ?thesis by (simp add: lifetime_def algebra_simps)
qed

theorem identifiers_forgotten_witness:
  "wall (core demo_server) \<le> last_candidate_at demo_info + nanos_per_minute + REQUEST_TIMEOUT +
     int SWEEP_INTERVAL + 2 * int demo_latency"
proof -
  have "hm_get (identifier_rate_limit (memory demo_server)) demo_hash = Some demo_info"
    by (simp add: memory_def demo_server_def demo_final_def demo_system_def hm_simps)
  from identifiers_forgotten [OF demo_limits demo_server_reachable this] show ?thesis
    by (simp add: demo_state_def)
qed

end
