(* ===== verification/Env_Config.thy ===== *)
theory Env_Config
  imports Scenario
begin

text \<open>
  The configuration of \<open>src/env.rs\<close>: the parsers of the standard library it calls, \<open>optional_env\<close>,
  the four validators and \<open>init\<close>, which builds the initial \<open>AppState\<close>, refuses to start, or panics.
  The environment is a function of variable names; \<open>dotenv\<close>, which extends it from a file, is a
  parameter.
\<close>

section \<open>Parsing numbers\<close>

definition digit_value :: "char \<Rightarrow> int option" where
  "digit_value c =
     (if 48 \<le> char_code c \<and> char_code c \<le> 57 then Some (int (char_code c) - 48) else None)"

fun digits_value :: "int \<Rightarrow> string \<Rightarrow> int option" where
  "digits_value acc [] = Some acc"
| "digits_value acc (c # cs) =
     (case digit_value c of None \<Rightarrow> None | Some d \<Rightarrow> digits_value (10 * acc + d) cs)"

definition parse_digits :: "string \<Rightarrow> int option" where
  "parse_digits s = (if s = [] then None else digits_value 0 s)"

text \<open>\<open>FromStr\<close> of the unsigned types: an optional \<open>+\<close>, digits, and no overflow.\<close>

definition parse_unsigned :: "int \<Rightarrow> string \<Rightarrow> int option" where
  "parse_unsigned bound s =
     (case parse_digits (if s \<noteq> [] \<and> hd s = CHR ''+'' then tl s else s) of
        None \<Rightarrow> None
      | Some n \<Rightarrow> if n < bound then Some n else None)"

definition parse_u8 :: "string \<Rightarrow> u8 option" where
  "parse_u8 s = map_option word_of_int (parse_unsigned (2 ^ 8) s)"

definition parse_u64 :: "string \<Rightarrow> u64 option" where
  "parse_u64 s = map_option word_of_int (parse_unsigned (2 ^ 64) s)"

definition parse_usize :: "string \<Rightarrow> usize option" where
  "parse_usize s = map_option word_of_int (parse_unsigned (2 ^ 64) s)"

definition parse_i64 :: "string \<Rightarrow> int option" where
  "parse_i64 s =
     (if s \<noteq> [] \<and> hd s = CHR ''-''
      then (case parse_digits (tl s) of
              None \<Rightarrow> None
            | Some n \<Rightarrow> if n \<le> 2 ^ 63 then Some (- n) else None)
      else parse_unsigned (2 ^ 63) s)"

text \<open>
  \<open>f64::from_str\<close>: a sign, then \<open>inf\<close>, \<open>infinity\<close>, \<open>nan\<close> in any case, or a decimal number
  with at least one digit and an optional exponent, rounded to the nearest double.
\<close>

fun split_at_char :: "(char \<Rightarrow> bool) \<Rightarrow> string \<Rightarrow> string \<times> string option" where
  "split_at_char P [] = ([], None)"
| "split_at_char P (c # cs) =
     (if P c then ([], Some cs) else (case split_at_char P cs of (w, r) \<Rightarrow> (c # w, r)))"

definition parse_exponent :: "string option \<Rightarrow> int option" where
  "parse_exponent e =
     (case e of
        None \<Rightarrow> Some 0
      | Some s \<Rightarrow>
          if s \<noteq> [] \<and> hd s = CHR ''-'' then map_option uminus (parse_digits (tl s))
          else parse_digits (if s \<noteq> [] \<and> hd s = CHR ''+'' then tl s else s))"

definition parse_mantissa :: "string \<Rightarrow> rat option" where
  "parse_mantissa s =
     (let (whole, rest) = split_at_char (\<lambda>c. c = CHR ''.'') s;
          frac = (case rest of None \<Rightarrow> [] | Some f \<Rightarrow> f)
      in if whole = [] \<and> frac = [] then None
         else (case digits_value 0 (whole @ frac) of
                 None \<Rightarrow> None
               | Some n \<Rightarrow> Some (of_int n / 10 ^ length frac)))"

definition f64_of_rat :: "rat \<Rightarrow> f64_class" where
  "f64_of_rat x =
     (if f64_round \<bar>x\<bar> < 2 ^ 1024 then Finite (if 0 \<le> x then f64_round \<bar>x\<bar> else - f64_round \<bar>x\<bar>)
      else if 0 \<le> x then Pos_Inf else Neg_Inf)"

definition parse_unsigned_f64 :: "string \<Rightarrow> (bool \<Rightarrow> f64_class) option" where
  "parse_unsigned_f64 s =
     (let l = map to_ascii_lowercase s
      in if l = ''inf'' \<or> l = ''infinity'' then Some (\<lambda>neg. if neg then Neg_Inf else Pos_Inf)
         else if l = ''nan'' then Some (\<lambda>_. NaN)
         else
           (let (m, e) = split_at_char (\<lambda>c. c = CHR ''e'') l
            in case (parse_mantissa m, parse_exponent e) of
                 (Some x, Some k) \<Rightarrow> Some (\<lambda>neg. f64_of_rat (if neg then - (x * 10 powi k) else x * 10 powi k))
               | _ \<Rightarrow> None))"

definition parse_f64 :: "string \<Rightarrow> f64_class option" where
  "parse_f64 s =
     (if s \<noteq> [] \<and> hd s = CHR ''-'' then map_option (\<lambda>f. f True) (parse_unsigned_f64 (tl s))
      else map_option (\<lambda>f. f False)
        (parse_unsigned_f64 (if s \<noteq> [] \<and> hd s = CHR ''+'' then tl s else s)))"

section \<open>The validators\<close>

text \<open>One constructor for each error message, with the values it prints.\<close>

datatype config_error =
    Cooldown_Not_Positive int
  | Cooldown_Too_Long int
  | Secret_Max_Length_Zero
  | Max_Attempts_Zero
  | Identifiers_Out_Of_Range usize
  | Concurrency_Out_Of_Range usize
  | Bad_Burst string f64_class
  | Bad_Refill string f64_class
  | Snapshot_Ttl_Zero
  | Invalid_Value string
  | Cannot_Read string

definition validate_config :: "int \<Rightarrow> usize \<Rightarrow> u8 \<Rightarrow> config_error + unit" where
  "validate_config cooldown max_length max_attempts =
     (if cooldown \<le> 0 then Inl (Cooldown_Not_Positive cooldown)
      else if 525600 < cooldown then Inl (Cooldown_Too_Long cooldown)
      else if max_length = 0 then Inl Secret_Max_Length_Zero
      else if max_attempts = 0 then Inl Max_Attempts_Zero
      else Inr ())"

definition MAX_RATE_LIMIT_IDENTIFIERS :: usize where
  "MAX_RATE_LIMIT_IDENTIFIERS = 10000000"

definition MAX_DATABASE_CONCURRENCY :: usize where
  "MAX_DATABASE_CONCURRENCY = 1024"

definition validate_capacity :: "usize \<Rightarrow> usize \<Rightarrow> config_error + unit" where
  "validate_capacity max_identifiers concurrency =
     (if max_identifiers = 0 \<or> MAX_RATE_LIMIT_IDENTIFIERS < max_identifiers
      then Inl (Identifiers_Out_Of_Range max_identifiers)
      else if concurrency = 0 \<or> MAX_DATABASE_CONCURRENCY < concurrency
      then Inl (Concurrency_Out_Of_Range concurrency)
      else Inr ())"

definition validate_token_bucket :: "string \<Rightarrow> f64_class \<Rightarrow> f64_class \<Rightarrow> config_error + unit" where
  "validate_token_bucket name burst refill =
     (if \<not> is_finite burst \<or> f64_le burst 0 then Inl (Bad_Burst name burst)
      else if \<not> is_finite refill \<or> f64_lt refill 0 then Inl (Bad_Refill name refill)
      else Inr ())"

definition validate_snapshot_ttl :: "u64 \<Rightarrow> config_error + unit" where
  "validate_snapshot_ttl seconds = (if seconds = 0 then Inl Snapshot_Ttl_Zero else Inr ())"

section \<open>Starting up\<close>

text \<open>A variable that is set may not be Unicode; \<open>env::var\<close> then fails.\<close>

datatype env_var = Unicode string | Not_Unicode

type_synonym env = "string \<Rightarrow> env_var option"

text \<open>A start succeeds, exits with a message and status 1, or panics in an \<open>expect\<close>.\<close>

datatype 'a startup = Started 'a | Exited config_error | Start_Panic string

fun and_then :: "'a startup \<Rightarrow> ('a \<Rightarrow> 'b startup) \<Rightarrow> 'b startup" where
  "and_then (Started a) f = f a"
| "and_then (Exited e) f = Exited e"
| "and_then (Start_Panic s) f = Start_Panic s"

definition expect_var :: "env \<Rightarrow> string \<Rightarrow> string startup" where
  "expect_var e name = (case e name of Some (Unicode v) \<Rightarrow> Started v | _ \<Rightarrow> Start_Panic name)"

definition parse_or_exit :: "string \<Rightarrow> (string \<Rightarrow> 'a option) \<Rightarrow> string \<Rightarrow> 'a startup" where
  "parse_or_exit name parse v = (case parse v of Some a \<Rightarrow> Started a | None \<Rightarrow> Exited (Invalid_Value name))"

definition optional_env :: "(string \<Rightarrow> 'a option) \<Rightarrow> env \<Rightarrow> string \<Rightarrow> 'a \<Rightarrow> 'a startup" where
  "optional_env parse e name dflt =
     (case e name of
        Some (Unicode v) \<Rightarrow> parse_or_exit name parse v
      | None \<Rightarrow> Started dflt
      | Some Not_Unicode \<Rightarrow> Exited (Cannot_Read name))"

definition check :: "config_error + unit \<Rightarrow> unit startup" where
  "check r = (case r of Inl e \<Rightarrow> Exited e | Inr u \<Rightarrow> Started u)"

text \<open>\<open>RATE_LIMIT_MAX_ATTEMPTS\<close>, or its deprecated alias when it is not set: the name and value.\<close>

definition max_attempts_var :: "env \<Rightarrow> (string \<times> string) startup" where
  "max_attempts_var e =
     (case e ''RATE_LIMIT_MAX_ATTEMPTS'' of
        Some (Unicode v) \<Rightarrow> Started (''RATE_LIMIT_MAX_ATTEMPTS'', v)
      | Some Not_Unicode \<Rightarrow> Start_Panic ''cannot read RATE_LIMIT_MAX_ATTEMPTS''
      | None \<Rightarrow>
          (case e ''RATE_LIMIT_MAX_FAILED_ATTEMPTS'' of
             Some (Unicode v) \<Rightarrow> Started (''RATE_LIMIT_MAX_FAILED_ATTEMPTS'', v)
           | Some Not_Unicode \<Rightarrow> Start_Panic ''cannot read RATE_LIMIT_MAX_FAILED_ATTEMPTS''
           | None \<Rightarrow> Start_Panic ''RATE_LIMIT_MAX_ATTEMPTS must be set''))"

text \<open>Burst and refill rate of one bucket, validated.\<close>

definition bucket_config :: "env \<Rightarrow> string \<Rightarrow> f64 \<Rightarrow> f64 \<Rightarrow> (f64_class \<times> f64_class) startup" where
  "bucket_config e name burst refill =
     and_then (optional_env parse_f64 e (name @ ''_RATE_LIMIT_BURST'') (Finite burst)) (\<lambda>b.
     and_then (optional_env parse_f64 e (name @ ''_RATE_LIMIT_REFILL_PER_SECOND'') (Finite refill)) (\<lambda>r.
     and_then (check (validate_token_bucket name b r)) (\<lambda>_. Started (b, r))))"

definition finite_value :: "f64_class \<Rightarrow> f64" where
  "finite_value x = (case x of Finite r \<Rightarrow> r | _ \<Rightarrow> 0)"

definition bucket_of :: "f64_class \<times> f64_class \<Rightarrow> instant \<Rightarrow> TokenBucket" where
  "bucket_of p now = TokenBucket_new (finite_value (fst p)) (finite_value (snd p)) now"

text \<open>\<open>now\<close> and \<open>utc_now\<close> are the clocks when the state is built.\<close>

definition init :: "(env \<Rightarrow> string option \<times> env) \<Rightarrow> env \<Rightarrow> instant \<Rightarrow> DateTime \<Rightarrow> AppState startup" where
  "init dotenv process_env now utc_now =
     (let from_env = (case process_env ''CANARY'' of Some (Unicode _) \<Rightarrow> True | _ \<Rightarrow> False);
          (path, e) = dotenv process_env
      in
      and_then (expect_var e ''SERVER_ADDRESS'') (\<lambda>server_addr.
      and_then (expect_var e ''RATE_LIMIT_COOLDOWN'') (\<lambda>cooldown_text.
      and_then (expect_var e ''SECRET_MAX_LENGTH'') (\<lambda>max_length_text.
      and_then (expect_var e ''CANARY'') (\<lambda>canary_value.
      and_then (max_attempts_var e) (\<lambda>attempts_var.
      and_then (expect_var e ''DATABASE_URL'') (\<lambda>url.
      and_then (parse_or_exit ''RATE_LIMIT_COOLDOWN'' parse_i64 cooldown_text) (\<lambda>cooldown.
      and_then (parse_or_exit ''SECRET_MAX_LENGTH'' parse_usize max_length_text) (\<lambda>max_length.
      and_then (parse_or_exit (fst attempts_var) parse_u8 (snd attempts_var)) (\<lambda>max_attempts.
      and_then (check (validate_config cooldown max_length max_attempts)) (\<lambda>_.
      and_then (bucket_config e ''STORE'' 10 2) (\<lambda>store_bucket.
      and_then (bucket_config e ''LOOKUP'' 100 5) (\<lambda>lookup_bucket.
      and_then (optional_env parse_usize e ''RATE_LIMIT_MAX_IDENTIFIERS'' 100000) (\<lambda>max_identifiers.
      and_then (optional_env parse_usize e ''DATABASE_MAX_CONCURRENCY'' 16) (\<lambda>concurrency.
      and_then (check (validate_capacity max_identifiers concurrency)) (\<lambda>_.
      and_then (bucket_config e ''ATTEMPTS'' 20 2) (\<lambda>attempts_bucket.
      and_then (optional_env parse_u64 e ''ATTEMPTS_SNAPSHOT_TTL_SECONDS'' 60) (\<lambda>ttl.
      and_then (check (validate_snapshot_ttl ttl)) (\<lambda>_.
      Started
        \<lparr>server_address = server_addr, database_url = url, canary = canary_value,
         canary_from_env = from_env,
         canary_path = (case path of Some p \<Rightarrow> p | None \<Rightarrow> ''.env''),
         canary_cache = None, rate_limit_cooldown = cooldown * nanos_per_minute,
         identifier_rate_limit = fmempty, secret_max_length = max_length,
         rate_limit_max_attempts = max_attempts,
         store_token_bucket = bucket_of store_bucket now,
         lookup_token_bucket = bucket_of lookup_bucket now,
         attempts_token_bucket = bucket_of attempts_bucket now,
         rate_limit_max_identifiers = max_identifiers, database_semaphore = unat concurrency,
         attempts_collection_started_at = utc_now, attempts_snapshot = None,
         attempts_snapshot_ttl = unat ttl * 10 ^ 9\<rparr>)))))))))))))))))))"

section \<open>What a start guarantees\<close>

lemma and_then_Started [simp]:
  "and_then x f = Started b \<longleftrightarrow> (\<exists>a. x = Started a \<and> f a = Started b)"
  by (cases x) simp_all

lemma check_Started [simp]: "check r = Started u \<longleftrightarrow> r = Inr u"
  by (simp add: check_def split: sum.splits)

lemma f64_of_rat_representable: "f64_of_rat x = Finite r \<Longrightarrow> 0 \<le> r \<Longrightarrow> representable r"
proof -
  assume x: "f64_of_rat x = Finite r" and r: "0 \<le> r"
  have "r = f64_round \<bar>x\<bar> \<or> r = - f64_round \<bar>x\<bar>"
    using x by (auto simp: f64_of_rat_def split: if_splits)
  moreover have "0 \<le> f64_round \<bar>x\<bar>" by (simp add: f64_round_nonneg)
  ultimately have "r = f64_round \<bar>x\<bar>" using r by auto
  then show ?thesis by (simp add: representable_round)
qed

lemma parse_f64_representable: "parse_f64 s = Some (Finite r) \<Longrightarrow> 0 \<le> r \<Longrightarrow> representable r"
  by (auto simp: parse_f64_def parse_unsigned_f64_def Let_def f64_of_rat_representable
      split: if_splits option.splits prod.splits)

lemma bucket_config_wf:
  assumes "bucket_config e name burst refill = Started p" "representable burst" "representable refill"
  shows "bucket_wf (bucket_of p now)" "0 < capacity (bucket_of p now)"
proof -
  obtain b r where p: "p = (b, r)" and b: "optional_env parse_f64 e (name @ ''_RATE_LIMIT_BURST'') (Finite burst) = Started b"
    and v: "validate_token_bucket name b r = Inr ()"
    using assms(1) by (auto simp: bucket_config_def)
  obtain x y where xy: "b = Finite x" "0 < x" "r = Finite y" "0 \<le> y"
    using v by (cases b; cases r) (auto simp: validate_token_bucket_def is_finite_def f64_le_def f64_lt_def split: if_splits)
  have "representable x"
    using b xy(1,2) assms(2) parse_f64_representable
    by (auto simp: optional_env_def parse_or_exit_def split: option.splits env_var.splits)
  then show "bucket_wf (bucket_of p now)" "0 < capacity (bucket_of p now)"
    using p xy by (simp_all add: bucket_of_def finite_value_def bucket_wf_def TokenBucket_new_def)
qed

section \<open>Properties of the configuration\<close>

lemma digit_value_show: "n < 10 \<Longrightarrow> digit_value (char_of (48 + n)) = Some (int n)"
  by (simp add: digit_value_def char_code_char_of)

lemma digits_value_append:
  "digits_value acc (s @ t) = (case digits_value acc s of None \<Rightarrow> None | Some a \<Rightarrow> digits_value a t)"
  by (induction s arbitrary: acc) (simp_all split: option.splits)

lemma digits_value_show: "digits_value 0 (show_nat n) = Some (int n)"
proof (induction n rule: show_nat.induct)
  case (1 n)
  show ?case
  proof (cases "n < 10")
    case True
    then show ?thesis by (subst show_nat.simps) (simp add: digit_value_show)
  next
    case False
    then show ?thesis
      using 1 by (subst show_nat.simps) (simp add: digits_value_append digit_value_show zdiv_int zmod_int)
  qed
qed

lemma show_nat_not_empty: "show_nat n \<noteq> []"
  by (subst show_nat.simps) simp

lemma show_nat_head: "hd (show_nat n) \<noteq> CHR ''+'' \<and> hd (show_nat n) \<noteq> CHR ''-''"
proof -
  have codes: "char_code CHR ''+'' = 43" "char_code CHR ''-'' = 45" by (simp_all add: char_code_def)
  have "48 \<le> char_code (hd (show_nat n))"
  proof (induction n rule: show_nat.induct)
    case (1 n)
    then show ?case by (subst show_nat.simps) (simp add: char_code_char_of hd_append show_nat_not_empty)
  qed
  with codes show ?thesis by force
qed

lemma parse_unsigned_show: "parse_unsigned bound (show_nat n) = (if int n < bound then Some (int n) else None)"
  by (simp add: parse_unsigned_def parse_digits_def show_nat_not_empty show_nat_head digits_value_show)

lemma nat_below: "int n < 2 ^ k \<longleftrightarrow> n < 2 ^ k" "int n \<le> 2 ^ k \<longleftrightarrow> n \<le> 2 ^ k"
  by (metis of_nat_less_iff of_nat_numeral of_nat_power, metis of_nat_le_iff of_nat_numeral of_nat_power)

text \<open>
  Numbers written in decimal are read back exactly, and one that does not fit its type is refused
  instead of wrapping.
\<close>

lemma parse_u8_show: "parse_u8 (show_nat n) = (if n < 2 ^ 8 then Some (of_nat n) else None)"
  and parse_usize_show: "parse_usize (show_nat n) = (if n < 2 ^ 64 then Some (of_nat n) else None)"
  and parse_i64_show: "parse_i64 (show_nat n) = (if n < 2 ^ 63 then Some (int n) else None)"
  and parse_i64_show_neg: "parse_i64 (CHR ''-'' # show_nat n) = (if n \<le> 2 ^ 63 then Some (- int n) else None)"
  using nat_below
  by (simp_all add: parse_u8_def parse_usize_def parse_i64_def parse_unsigned_show show_nat_head
      show_nat_not_empty parse_digits_def digits_value_show del: of_nat_le_iff of_nat_less_iff)

lemma validated_numbers:
  assumes "validate_config cooldown max_length max_attempts = Inr ()" "validate_capacity ids n = Inr ()"
    and "validate_snapshot_ttl ttl = Inr ()"
  shows "0 < cooldown" "cooldown \<le> 525600" "0 < max_length" "0 < max_attempts" "0 < ids" "ids \<le> 10000000"
    "1 \<le> unat n" "unat n \<le> 1024" "10 ^ 9 \<le> unat ttl * (10 ^ 9 :: nat)"
proof -
  show "0 < cooldown" "cooldown \<le> 525600" "0 < max_length" "0 < max_attempts"
    using assms(1) by (auto simp: validate_config_def word_gt_0 split: if_splits)
  have n: "n \<noteq> 0" "\<not> 1024 < n" and "ids \<noteq> 0" "\<not> 10000000 < ids"
    using assms(2) by (auto simp: validate_capacity_def MAX_RATE_LIMIT_IDENTIFIERS_def MAX_DATABASE_CONCURRENCY_def
        split: if_splits)
  then show "0 < ids" "ids \<le> 10000000" by (simp_all add: word_gt_0)
  show "1 \<le> unat n" "unat n \<le> 1024"
    using n by (simp_all add: not_less word_le_nat_alt Suc_le_eq unat_gt_0)
  have "ttl \<noteq> 0" using assms(3) by (auto simp: validate_snapshot_ttl_def split: if_splits)
  then have "1 \<le> unat ttl" by (simp add: Suc_le_eq unat_gt_0)
  then show "10 ^ 9 \<le> unat ttl * (10 ^ 9 :: nat)" by simp
qed

lemma init_parts:
  assumes "init dotenv e now utc_now = Started st"
  obtains cooldown max_length max_attempts ids n sb lb ab ttl e' where
    "validate_config cooldown max_length max_attempts = Inr ()" "validate_capacity ids n = Inr ()"
    "validate_snapshot_ttl ttl = Inr ()"
    "bucket_config e' ''STORE'' 10 2 = Started sb" "bucket_config e' ''LOOKUP'' 100 5 = Started lb"
    "bucket_config e' ''ATTEMPTS'' 20 2 = Started ab"
    "rate_limit_cooldown st = cooldown * nanos_per_minute" "rate_limit_max_attempts st = max_attempts"
    "rate_limit_max_identifiers st = ids" "database_semaphore st = unat n" "secret_max_length st = max_length"
    "identifier_rate_limit st = fmempty" "attempts_snapshot st = None" "attempts_snapshot_ttl st = unat ttl * 10 ^ 9"
    "store_token_bucket st = bucket_of sb now" "lookup_token_bucket st = bucket_of lb now"
    "attempts_token_bucket st = bucket_of ab now"
  using assms by (auto simp: init_def Let_def split_beta)

lemma init_limits: "init dotenv e now utc_now = Started st \<Longrightarrow> limits_ok st"
proof (erule init_parts)
  fix cooldown max_length max_attempts ids n ttl
  assume "validate_config cooldown max_length max_attempts = Inr ()" "validate_capacity ids n = Inr ()"
    "validate_snapshot_ttl ttl = Inr ()" "rate_limit_cooldown st = cooldown * nanos_per_minute"
    "rate_limit_max_attempts st = max_attempts" "rate_limit_max_identifiers st = ids"
  then show "limits_ok st"
    using validated_numbers [of cooldown max_length max_attempts ids n ttl] by (simp add: limits_ok_def)
qed

lemma init_reads:
  assumes "init dotenv e now utc_now = Started st"
    and "snd (dotenv e) ''RATE_LIMIT_COOLDOWN'' = Some (Unicode cooldown_text)"
    and "snd (dotenv e) ''RATE_LIMIT_MAX_ATTEMPTS'' = Some (Unicode attempts_text)"
  shows "\<exists>k. parse_i64 cooldown_text = Some k \<and> rate_limit_cooldown st = k * nanos_per_minute"
    and "parse_u8 attempts_text = Some (rate_limit_max_attempts st)"
  using assms
  by (auto simp: init_def Let_def split_beta expect_var_def max_attempts_var_def parse_or_exit_def
      split: option.splits env_var.splits)

text \<open>
  C39. A server that starts satisfies everything the other components assume: the limits of the
  rate limiter, three well-formed buckets that can hold a token, a positive and bounded number
  of permits and identifiers, a positive snapshot lifetime, an empty map and no snapshot.
\<close>

theorem init_guarantees:
  assumes "init dotenv e now utc_now = Started st"
  shows "limits_ok st \<and> identifier_rate_limit st = fmempty \<and> attempts_snapshot st = None \<and>
    bucket_wf (store_token_bucket st) \<and> bucket_wf (lookup_token_bucket st) \<and> bucket_wf (attempts_token_bucket st) \<and>
    0 < capacity (store_token_bucket st) \<and> 0 < capacity (lookup_token_bucket st) \<and> 0 < capacity (attempts_token_bucket st) \<and>
    1 \<le> database_semaphore st \<and> database_semaphore st \<le> 1024 \<and>
    rate_limit_max_identifiers st \<le> 10000000 \<and> 0 < secret_max_length st \<and>
    10 ^ 9 \<le> attempts_snapshot_ttl st"
  using assms
proof (rule init_parts)
  fix cooldown max_length max_attempts ids n sb lb ab ttl e'
  assume v: "validate_config cooldown max_length max_attempts = Inr ()" "validate_capacity ids n = Inr ()"
      "validate_snapshot_ttl ttl = Inr ()"
    and b: "bucket_config e' ''STORE'' 10 2 = Started sb" "bucket_config e' ''LOOKUP'' 100 5 = Started lb"
      "bucket_config e' ''ATTEMPTS'' 20 2 = Started ab"
    and st: "rate_limit_cooldown st = cooldown * nanos_per_minute" "rate_limit_max_attempts st = max_attempts"
      "rate_limit_max_identifiers st = ids" "database_semaphore st = unat n" "secret_max_length st = max_length"
      "identifier_rate_limit st = fmempty" "attempts_snapshot st = None" "attempts_snapshot_ttl st = unat ttl * 10 ^ 9"
      "store_token_bucket st = bucket_of sb now" "lookup_token_bucket st = bucket_of lb now"
      "attempts_token_bucket st = bucket_of ab now"
  have defaults: "representable 10" "representable 2" "representable 100" "representable 5" "representable 20"
    using representable_of_nat [of 10] representable_of_nat [of 2] representable_of_nat [of 100]
      representable_of_nat [of 5] representable_of_nat [of 20] by simp_all
  show ?thesis
    using init_limits [OF assms] st validated_numbers [OF v] bucket_config_wf [OF b(1) defaults(1,2)]
      bucket_config_wf [OF b(2) defaults(3,4)] bucket_config_wf [OF b(3) defaults(5,2)]
    by simp
qed

text \<open>The environment that starts the server in the state of the theory \<open>Scenario\<close>.\<close>

definition demo_env :: env where
  "demo_env = map_of
     [(''SERVER_ADDRESS'', Unicode ''127.0.0.1:3001''), (''RATE_LIMIT_COOLDOWN'', Unicode ''1''),
      (''SECRET_MAX_LENGTH'', Unicode ''256''), (''CANARY'', Unicode ''ok''),
      (''RATE_LIMIT_MAX_ATTEMPTS'', Unicode ''2''), (''DATABASE_URL'', Unicode ''db''),
      (''RATE_LIMIT_MAX_IDENTIFIERS'', Unicode ''2''), (''DATABASE_MAX_CONCURRENCY'', Unicode ''1'')]"

lemma demo_init: "init (\<lambda>e. (None, e)) demo_env 0 0 = Started demo_state"
proof -
  have "parse_i64 ''1'' = Some 1" "parse_usize ''256'' = Some 256" "parse_u8 ''2'' = Some 2"
    "parse_usize ''2'' = Some 2" "parse_usize ''1'' = Some 1" by code_simp+
  then show ?thesis
    by (simp add: init_def demo_env_def expect_var_def max_attempts_var_def parse_or_exit_def check_def
        bucket_config_def optional_env_def validate_config_def validate_token_bucket_def validate_capacity_def
        validate_snapshot_ttl_def MAX_RATE_LIMIT_IDENTIFIERS_def MAX_DATABASE_CONCURRENCY_def
        is_finite_def f64_le_def f64_lt_def bucket_of_def finite_value_def demo_state_def)
qed

theorem init_guarantees_witness: "limits_ok demo_state \<and> bucket_wf (lookup_token_bucket demo_state)"
  using init_guarantees [OF demo_init] by simp

end
