(* ===== verification/Migrations.thy ===== *)
theory Migrations
  imports Database
begin

text \<open>
  \<open>run_migrations\<close>, \<open>table_exists\<close> and \<open>init_db\<close> of \<open>src/database.rs\<close>: adopting a \<open>secret\<close> table
  that predates the migration ledger, then running the embedded migrations. The statements and
  diesel's migration harness are the parameter record \<open>ddl_engine\<close>; the locale \<open>schema_store\<close>
  states what the code relies on, and is interpreted on a reference database.
\<close>

section \<open>The statements\<close>

record SecretColumn =
  col_name :: string
  col_type :: string
  col_not_null :: int
  col_primary_key :: int
  col_default :: "string option"

record 'c ddl_engine =
  master_names :: "string \<Rightarrow> 'c \<Rightarrow> sql_error + string list"
  secret_table_info :: "'c \<Rightarrow> sql_error + SecretColumn list"
  create_ledger :: "'c \<Rightarrow> (sql_error + unit) \<times> 'c"
  insert_version :: "string \<Rightarrow> 'c \<Rightarrow> (sql_error + unit) \<times> 'c"
  ddl_begin :: "'c \<Rightarrow> sql_error + 'c"
  ddl_commit :: "'c \<Rightarrow> (sql_error + unit) \<times> 'c"
  ddl_rollback :: "'c \<Rightarrow> 'c"
  run_pending_migrations :: "'c \<Rightarrow> (sql_error + unit) \<times> 'c"
  enable_wal :: "'c \<Rightarrow> (sql_error + unit) \<times> 'c"

section \<open>The functions\<close>

definition INITIAL_MIGRATION_VERSION :: string where
  "INITIAL_MIGRATION_VERSION = ''0001''"

definition table_exists :: "'c ddl_engine \<Rightarrow> string \<Rightarrow> 'c \<Rightarrow> sql_error + bool" where
  "table_exists D table_name c =
     (case master_names D table_name c of Inl e \<Rightarrow> Inl e | Inr names \<Rightarrow> Inr (names \<noteq> []))"

definition expected_columns :: "(string \<times> string \<times> int \<times> int \<times> string option) list" where
  "expected_columns =
     [(''id'', ''TEXT'', 1, 1, None), (''created_at'', ''TEXT'', 1, 0, None),
      (''encrypted_secret'', ''TEXT'', 1, 0, None)]"

definition exact_schema :: "SecretColumn list \<Rightarrow> bool" where
  "exact_schema columns \<longleftrightarrow>
     length columns = length expected_columns \<and>
     list_all (\<lambda>(column, e).
       (col_name column, col_type column, col_not_null column, col_primary_key column, col_default column) = e)
       (zip columns expected_columns)"

text \<open>\<open>Connection::transaction\<close>.\<close>

definition ddl_transaction ::
  "'c ddl_engine \<Rightarrow> ('c \<Rightarrow> (sql_error + unit) \<times> 'c) \<Rightarrow> 'c \<Rightarrow> (sql_error + unit) \<times> 'c" where
  "ddl_transaction D f c =
     (case ddl_begin D c of
        Inl e \<Rightarrow> (Inl e, c)
      | Inr c1 \<Rightarrow>
          (case f c1 of
             (Inl e, c2) \<Rightarrow> (Inl e, ddl_rollback D c2)
           | (Inr u, c2) \<Rightarrow>
               (case ddl_commit D c2 of
                  (Inl e, c3) \<Rightarrow> (Inl e, ddl_rollback D c3)
                | (Inr _, c3) \<Rightarrow> (Inr u, c3))))"

definition adopt_body :: "'c ddl_engine \<Rightarrow> 'c \<Rightarrow> (sql_error + unit) \<times> 'c" where
  "adopt_body D c =
     (case create_ledger D c of
        (Inl e, c1) \<Rightarrow> (Inl e, c1)
      | (Inr _, c1) \<Rightarrow>
          (case insert_version D INITIAL_MIGRATION_VERSION c1 of
             (Inl e, c2) \<Rightarrow> (Inl e, c2)
           | (Inr _, c2) \<Rightarrow> (Inr (), c2)))"

definition adopt_legacy :: "'c ddl_engine \<Rightarrow> 'c \<Rightarrow> (sql_error + unit) \<times> 'c" where
  "adopt_legacy D c =
     (case secret_table_info D c of
        Inl e \<Rightarrow> (Inl e, c)
      | Inr columns \<Rightarrow>
          if \<not> exact_schema columns then (Inl ''legacy secret table has an incompatible schema'', c)
          else ddl_transaction D (adopt_body D) c)"

definition run_migrations :: "'c ddl_engine \<Rightarrow> 'c \<Rightarrow> (sql_error + unit) \<times> 'c" where
  "run_migrations D c =
     (case table_exists D ''secret'' c of
        Inl e \<Rightarrow> (Inl e, c)
      | Inr secret_exists \<Rightarrow>
          (case table_exists D ''__diesel_schema_migrations'' c of
             Inl e \<Rightarrow> (Inl e, c)
           | Inr ledger_exists \<Rightarrow>
               (let (adopted, c1) = (if secret_exists \<and> \<not> ledger_exists then adopt_legacy D c else (Inr (), c))
                in case adopted of
                     Inl e \<Rightarrow> (Inl e, c1)
                   | Inr _ \<Rightarrow> run_pending_migrations D c1)))"

text \<open>\<open>None\<close> is a panic: the server does not start.\<close>

definition init_db :: "'c ddl_engine \<Rightarrow> ('c \<Rightarrow> 'c option) \<Rightarrow> 'c \<Rightarrow> unit option \<times> 'c" where
  "init_db D open_connection c =
     (case open_connection c of
        None \<Rightarrow> (None, c)
      | Some c0 \<Rightarrow>
          (case run_migrations D c0 of
             (Inl _, c1) \<Rightarrow> (None, c1)
           | (Inr _, c1) \<Rightarrow>
               (case enable_wal D c1 of (Inl _, c2) \<Rightarrow> (None, c2) | (Inr _, c2) \<Rightarrow> (Some (), c2))))"

section \<open>What the code relies on\<close>

text \<open>The part of a database that matters here.\<close>

record schema_view =
  has_secret :: bool
  has_ledger :: bool
  secret_columns :: "SecretColumn list"
  applied :: "string set"
  secrets :: rows

text \<open>
  Catalog queries report the catalog; a failed statement changes nothing; a rollback returns to
  the state at \<open>BEGIN\<close>; the harness runs exactly the embedded migrations that are not in the
  ledger, and here the only one creates the table.
\<close>

definition pending_view :: "schema_view \<Rightarrow> schema_view \<Rightarrow> bool" where
  "pending_view v v' \<longleftrightarrow>
     (if v' = v then True
      else has_ledger v' \<and> applied v' = insert INITIAL_MIGRATION_VERSION (applied v) \<and>
        (if INITIAL_MIGRATION_VERSION \<in> applied v
         then has_secret v' = has_secret v \<and> secret_columns v' = secret_columns v \<and> secrets v' = secrets v
         else \<not> has_secret v \<and> has_secret v' \<and> secrets v' = Map.empty))"

locale schema_store =
  fixes D :: "'c ddl_engine"
    and view :: "'c \<Rightarrow> schema_view"
    and saved :: "'c \<Rightarrow> schema_view"
  assumes names_secret: "master_names D ''secret'' c = Inr ns \<Longrightarrow> (ns \<noteq> []) = has_secret (view c)"
    and names_ledger: "master_names D ''__diesel_schema_migrations'' c = Inr ns \<Longrightarrow> (ns \<noteq> []) = has_ledger (view c)"
    and info_view: "secret_table_info D c = Inr cols \<Longrightarrow> has_secret (view c) \<Longrightarrow> cols = secret_columns (view c)"
    and create_view: "create_ledger D c = (r, c') \<Longrightarrow> saved c' = saved c \<and>
      view c' = (case r of Inl _ \<Rightarrow> view c | Inr _ \<Rightarrow> (view c)\<lparr>has_ledger := True, applied := {}\<rparr>)"
    and version_view: "insert_version D v c = (r, c') \<Longrightarrow> saved c' = saved c \<and>
      view c' = (case r of Inl _ \<Rightarrow> view c | Inr _ \<Rightarrow> (view c)\<lparr>applied := insert v (applied (view c))\<rparr>)"
    and begin_view: "ddl_begin D c = Inr c' \<Longrightarrow> view c' = view c \<and> saved c' = view c"
    and commit_view: "ddl_commit D c = (r, c') \<Longrightarrow> saved c' = saved c \<and> (r = Inr () \<longrightarrow> view c' = view c)"
    and rollback_view: "view (ddl_rollback D c) = saved c"
    and pending: "run_pending_migrations D c = (Inr u, c') \<Longrightarrow> pending_view (view c) (view c')"
    and pending_failed: "run_pending_migrations D c = (Inl e, c') \<Longrightarrow> view c' = view c"
begin

lemma table_exists_view:
  "table_exists D ''secret'' c = Inr b \<Longrightarrow> b = has_secret (view c)"
  "table_exists D ''__diesel_schema_migrations'' c = Inr b \<Longrightarrow> b = has_ledger (view c)"
  using names_secret names_ledger by (auto simp: table_exists_def split: sum.splits)

lemma adopt_body_view:
  assumes "adopt_body D c = (r, c')"
  shows "saved c' = saved c \<and> (r = Inr () \<longrightarrow>
    view c' = (view c)\<lparr>has_ledger := True, applied := {INITIAL_MIGRATION_VERSION}\<rparr>)"
proof (cases "create_ledger D c")
  case (Pair r1 c1)
  note one = create_view [OF Pair]
  show ?thesis
  proof (cases r1)
    case (Inl e)
    then show ?thesis using assms Pair one by (auto simp: adopt_body_def)
  next
    case (Inr u)
    obtain r2 c2 where two: "insert_version D INITIAL_MIGRATION_VERSION c1 = (r2, c2)" by fastforce
    then show ?thesis
      using assms Pair Inr one version_view [OF two] by (auto simp: adopt_body_def split: sum.splits)
  qed
qed

lemma transaction_view:
  assumes "\<And>c r c'. f c = (r, c') \<Longrightarrow> saved c' = saved c \<and> (r = Inr () \<longrightarrow> view c' = g (view c))"
    and "ddl_transaction D f c = (r, c')"
  shows "view c' = (case r of Inl _ \<Rightarrow> view c | Inr _ \<Rightarrow> g (view c))"
proof (cases "ddl_begin D c")
  case (Inl e)
  then show ?thesis using assms(2) by (auto simp: ddl_transaction_def)
next
  case (Inr c1)
  obtain r2 c2 where f: "f c1 = (r2, c2)" by fastforce
  obtain r3 c3 where k: "ddl_commit D c2 = (r3, c3)" by fastforce
  show ?thesis
    using assms(2) Inr f k assms(1) [OF f] begin_view [OF Inr] commit_view [OF k]
    by (cases r2; cases r3) (auto simp: ddl_transaction_def rollback_view)
qed

lemma adopt_view:
  assumes "adopt_legacy D c = (r, c')" "has_secret (view c)"
  shows "view c' = (case r of Inl _ \<Rightarrow> view c
    | Inr _ \<Rightarrow> (view c)\<lparr>has_ledger := True, applied := {INITIAL_MIGRATION_VERSION}\<rparr>) \<and>
    (r = Inr () \<longrightarrow> exact_schema (secret_columns (view c)))"
proof (cases "secret_table_info D c")
  case (Inl e)
  then show ?thesis using assms(1) by (auto simp: adopt_legacy_def)
next
  case (Inr cols)
  note cols = info_view [OF Inr assms(2)]
  show ?thesis
  proof (cases "exact_schema cols")
    case False
    then show ?thesis using assms(1) Inr by (auto simp: adopt_legacy_def)
  next
    case True
    then have "ddl_transaction D (adopt_body D) c = (r, c')" using assms(1) Inr by (simp add: adopt_legacy_def)
    from transaction_view [OF adopt_body_view this] show ?thesis using True cols by simp
  qed
qed

text \<open>Existing rows survive every start; a table of another shape is left alone.\<close>

lemma migrations_keep_secrets:
  assumes "has_secret (view c)" "run_migrations D c = (r, c')"
  shows "has_secret (view c') \<and> secrets (view c') = secrets (view c) \<and> secret_columns (view c') = secret_columns (view c)"
proof -
  have pend: "has_secret v' \<and> secrets v' = secrets v \<and> secret_columns v' = secret_columns v"
    if "pending_view v v'" "has_secret v" for v v'
    using that by (cases "v' = v"; cases "INITIAL_MIGRATION_VERSION \<in> applied v") (simp_all add: pending_view_def)
  show ?thesis
  proof (cases "\<exists>b l. table_exists D ''secret'' c = Inr b \<and> table_exists D ''__diesel_schema_migrations'' c = Inr l")
    case False
    then have "c' = c" using assms(2) by (auto simp: run_migrations_def split: sum.splits)
    then show ?thesis using assms(1) by simp
  next
    case True
    then obtain b l where bl: "table_exists D ''secret'' c = Inr b"
        "table_exists D ''__diesel_schema_migrations'' c = Inr l" by blast
    then have t: "table_exists D ''secret'' c = Inr True" "table_exists D ''__diesel_schema_migrations'' c = Inr l"
      using table_exists_view(1) [OF bl(1)] assms(1) by simp_all
    obtain ra c1 where a: "(if \<not> l then adopt_legacy D c else (Inr (), c)) = (ra, c1)" by fastforce
    have keep: "has_secret (view c1) \<and> secrets (view c1) = secrets (view c) \<and> secret_columns (view c1) = secret_columns (view c)"
    proof (cases l)
      case True
      then show ?thesis using a assms(1) by simp
    next
      case False
      then have "adopt_legacy D c = (ra, c1)" using a by simp
      from adopt_view [OF this assms(1)] show ?thesis using assms(1) by (cases ra) simp_all
    qed
    show ?thesis
    proof (cases ra)
      case (Inl e)
      then have "c' = c1" using assms(2) t a by (auto simp: run_migrations_def)
      then show ?thesis using keep by simp
    next
      case (Inr u)
      then have "run_pending_migrations D c1 = (r, c')" using assms(2) t a by (auto simp: run_migrations_def)
      then have "view c' = view c1 \<or> pending_view (view c1) (view c')"
        using pending pending_failed by (cases r) blast+
      then show ?thesis using keep pend [of "view c1" "view c'"] by auto
    qed
  qed
qed

lemma incompatible_untouched:
  assumes "has_secret (view c)" "\<not> has_ledger (view c)" "\<not> exact_schema (secret_columns (view c))"
    and "run_migrations D c = (r, c')"
  shows "(\<exists>e. r = Inl e) \<and> view c' = view c"
proof (cases "\<exists>b l. table_exists D ''secret'' c = Inr b \<and> table_exists D ''__diesel_schema_migrations'' c = Inr l")
  case False
  then have "c' = c \<and> (\<exists>e. r = Inl e)" using assms(4) by (auto simp: run_migrations_def split: sum.splits)
  then show ?thesis by simp
next
  case True
  then obtain b l where bl: "table_exists D ''secret'' c = Inr b"
      "table_exists D ''__diesel_schema_migrations'' c = Inr l" by blast
  then have t: "table_exists D ''secret'' c = Inr True" "table_exists D ''__diesel_schema_migrations'' c = Inr False"
    using table_exists_view(1) [OF bl(1)] table_exists_view(2) [OF bl(2)] assms(1,2) by simp_all
  obtain ra c1 where a: "adopt_legacy D c = (ra, c1)" by fastforce
  note adopted = adopt_view [OF a assms(1)]
  obtain e where e: "ra = Inl e" using adopted assms(3) by (cases ra) simp_all
  have "r = Inl e" "c' = c1" using a e assms(4) t by (simp_all add: run_migrations_def)
  then show ?thesis using adopted e by simp
qed

end

section \<open>A reference database\<close>

record schema_db =
  now_view :: schema_view
  saved_view :: schema_view
  ddl_faults :: "bool list"

definition standard_columns :: "SecretColumn list" where
  "standard_columns =
     map (\<lambda>(n, t, nn, pk, d). \<lparr>col_name = n, col_type = t, col_not_null = nn, col_primary_key = pk, col_default = d\<rparr>)
       expected_columns"

definition ddl_fault :: "schema_db \<Rightarrow> bool \<times> schema_db" where
  "ddl_fault c = (case ddl_faults c of [] \<Rightarrow> (False, c) | f # fs \<Rightarrow> (f, c\<lparr>ddl_faults := fs\<rparr>))"

text \<open>A statement that may fail, and otherwise updates the view.\<close>

definition ddl_statement :: "(schema_view \<Rightarrow> schema_view) \<Rightarrow> schema_db \<Rightarrow> (sql_error + unit) \<times> schema_db" where
  "ddl_statement f c =
     (let (failed, c) = ddl_fault c
      in if failed then (Inl ''SQLITE_BUSY'', c) else (Inr (), c\<lparr>now_view := f (now_view c)\<rparr>))"

definition run_pending :: "schema_view \<Rightarrow> schema_view" where
  "run_pending v =
     (if INITIAL_MIGRATION_VERSION \<in> applied v then v\<lparr>has_ledger := True\<rparr>
      else if has_secret v then v
      else v\<lparr>has_ledger := True, applied := insert INITIAL_MIGRATION_VERSION (applied v),
             has_secret := True, secret_columns := standard_columns, secrets := Map.empty\<rparr>)"

definition reference_ddl :: "schema_db ddl_engine" where
  "reference_ddl =
     \<lparr>master_names = (\<lambda>n c. Inr (if n = ''secret'' \<and> has_secret (now_view c) \<or>
          n = ''__diesel_schema_migrations'' \<and> has_ledger (now_view c) then [n] else [])),
      secret_table_info = (\<lambda>c. Inr (if has_secret (now_view c) then secret_columns (now_view c) else [])),
      create_ledger = ddl_statement (\<lambda>v. v\<lparr>has_ledger := True, applied := {}\<rparr>),
      insert_version = (\<lambda>n. ddl_statement (\<lambda>v. v\<lparr>applied := insert n (applied v)\<rparr>)),
      ddl_begin = (\<lambda>c. Inr (c\<lparr>saved_view := now_view c\<rparr>)),
      ddl_commit = ddl_statement (\<lambda>v. v),
      ddl_rollback = (\<lambda>c. c\<lparr>now_view := saved_view c\<rparr>),
      run_pending_migrations = (\<lambda>c.
        if has_secret (now_view c) \<and> INITIAL_MIGRATION_VERSION \<notin> applied (now_view c)
        then (Inl ''table secret already exists'', c) else ddl_statement run_pending c),
      enable_wal = ddl_statement (\<lambda>v. v)\<rparr>"

lemma ddl_fault_frame [simp]:
  "now_view (snd (ddl_fault c)) = now_view c" "saved_view (snd (ddl_fault c)) = saved_view c"
  by (simp_all add: ddl_fault_def split: list.splits)

lemma ddl_statement_view:
  "ddl_statement f c = (r, c') \<Longrightarrow> saved_view c' = saved_view c \<and>
     now_view c' = (case r of Inl _ \<Rightarrow> now_view c | Inr _ \<Rightarrow> f (now_view c))"
  by (auto simp: ddl_statement_def Let_def split_beta split: if_splits)

lemma run_pending_view:
  "\<not> (has_secret v \<and> INITIAL_MIGRATION_VERSION \<notin> applied v) \<Longrightarrow> pending_view v (run_pending v)"
  by (auto simp: pending_view_def run_pending_def)

interpretation reference_schema: schema_store reference_ddl now_view saved_view
proof unfold_locales
  fix c c' :: schema_db and r
  show "ddl_commit reference_ddl c = (r, c') \<Longrightarrow>
      saved_view c' = saved_view c \<and> (r = Inr () \<longrightarrow> now_view c' = now_view c)"
    using ddl_statement_view [of "\<lambda>v. v" c r c'] by (auto simp: reference_ddl_def)
next
  fix c c' :: schema_db and u
  show "run_pending_migrations reference_ddl c = (Inr u, c') \<Longrightarrow> pending_view (now_view c) (now_view c')"
    using ddl_statement_view [of run_pending c "Inr u" c'] run_pending_view [of "now_view c"]
    by (auto simp: reference_ddl_def split: if_splits)
next
  fix c c' :: schema_db and e
  show "run_pending_migrations reference_ddl c = (Inl e, c') \<Longrightarrow> now_view c' = now_view c"
    using ddl_statement_view [of run_pending c "Inl e" c'] by (auto simp: reference_ddl_def split: if_splits)
qed (auto simp: reference_ddl_def dest: ddl_statement_view split: if_splits)

section \<open>Properties of the start of the database\<close>


definition legacy_db :: schema_db where
  "legacy_db =
     (let v = \<lparr>has_secret = True, has_ledger = False, secret_columns = standard_columns, applied = {},
               secrets = [''k'' \<mapsto> \<lparr>sec_id = ''k'', sec_created_at = ''now'', sec_encrypted_secret = ''QUJD''\<rparr>]\<rparr>
      in \<lparr>now_view = v, saved_view = v, ddl_faults = [False, False, True]\<rparr>)"


end
