(* ===== verification/Startup.thy ===== *)
theory Startup
  imports Budget Env_Config Migrations Server_Scenario
begin

text \<open>
  \<open>main\<close> of \<open>src/main.rs\<close>: the configuration, the warning about an address that is not loopback, the
  migrations, and binding the listener; then the server of the theory \<open>Server\<close>, with its sweeper and its
  signal handler, runs on the state built. The property ties what the
  operator wrote in the environment to what the running server enforces.
\<close>

definition starts_with :: "string \<Rightarrow> string \<Rightarrow> bool" where
  "starts_with prefix s \<longleftrightarrow> take (length prefix) s = prefix"

definition is_loopback :: "string \<Rightarrow> bool" where
  "is_loopback address \<longleftrightarrow>
     starts_with ''127.0.0.1'' address \<or> starts_with ''localhost'' address \<or> starts_with ''[::1]'' address"

record startup_result =
  warned :: bool
  server_state :: AppState

text \<open>
  \<open>open_connection\<close> opens the database of a URL, \<open>can_bind\<close> says whether the listener binds; a
  failure of either, or of the migrations, is a panic.
\<close>

definition start_server ::
  "(env \<Rightarrow> string option \<times> env) \<Rightarrow> env \<Rightarrow> 'c ddl_engine \<Rightarrow> (string \<Rightarrow> 'c \<Rightarrow> 'c option) \<Rightarrow> (string \<Rightarrow> bool)
     \<Rightarrow> instant \<Rightarrow> DateTime \<Rightarrow> 'c \<Rightarrow> startup_result startup \<times> 'c" where
  "start_server dotenv process_env D open_connection can_bind now utc_now c =
     (case init dotenv process_env now utc_now of
        Exited e \<Rightarrow> (Exited e, c)
      | Start_Panic what \<Rightarrow> (Start_Panic what, c)
      | Started st \<Rightarrow>
          (case init_db D (open_connection (database_url st)) c of
             (None, c') \<Rightarrow> (Start_Panic ''init_db'', c')
           | (Some _, c') \<Rightarrow>
               (if can_bind (server_address st)
                then (Started \<lparr>warned = (\<not> is_loopback (server_address st)), server_state = st\<rparr>, c')
                else (Start_Panic ''bind'', c'))))"

lemma start_server_init:
  "start_server dotenv e D opening can_bind now utc_now c = (Started r, c') \<Longrightarrow>
     init dotenv e now utc_now = Started (server_state r)"
  by (auto simp: start_server_def split: startup.splits prod.splits option.splits if_splits)


lemma demo_start:
  "fst (start_server (\<lambda>e. (None, e)) demo_env reference_ddl (\<lambda>_ c. Some c) (\<lambda>_. True) 0 0 (legacy_db\<lparr>ddl_faults := []\<rparr>))
     = Started \<lparr>warned = False, server_state = demo_state\<rparr>"
proof -
  have "exact_schema standard_columns" by (simp add: exact_schema_def standard_columns_def expected_columns_def)
  then show ?thesis
    by (simp add: start_server_def demo_init init_db_def run_migrations_def table_exists_def reference_ddl_def legacy_db_def
        adopt_legacy_def adopt_body_def ddl_transaction_def ddl_statement_def ddl_fault_def Let_def
        is_loopback_def starts_with_def demo_state_def)
qed

lemma demo_numerals: "show_nat 2 = ''2''" "show_nat 1 = ''1''"
  by code_simp+


end
