(* ===== verification/Spec2Isabelle.thy ===== *)
theory Spec2Isabelle
  imports Server_Requests Retention Startup
begin

text \<open>
  recoverbull-server keeps encrypted backup secrets. A client stores a secret under an identifier
  and an authentication key (\<open>/store\<close>), reads it back (\<open>/fetch\<close>) or reads and deletes it (\<open>/trash\<close>).
  Only hashes of the credentials are kept. The security of a weak authentication key rests on the
  server's rate limiter: for each identifier, in each cooldown window, at most
  \<open>RATE_LIMIT_MAX_ATTEMPTS\<close> distinct candidates are looked up. \<open>/attempts\<close> publishes the activity,
  \<open>/info\<close> the configuration and a warrant canary. This development models the Rust code under
  \<open>src/src\<close> and proves that it keeps these promises, under every interleaving of requests, timeouts,
  cancellations and database failures.

  \<^bold>\<open>Theories and code.\<close>
  \<^item> \<open>Prelude\<close>: machine integers with saturation, \<open>HashMap\<close> as a finite map; \<open>F64\<close>: IEEE doubles as
    rationals with round-to-nearest-even, and the exactness and error bounds of the operations used.
  \<^item> \<open>Utils\<close> (\<open>utils.rs\<close>), \<open>Models\<close> (\<open>models.rs\<close>: records, status codes, responses).
  \<^item> \<open>Token_Bucket\<close> (\<open>rate_limit.rs\<close>): the bucket; the locale \<open>throttle\<close> and its interpretation.
  \<^item> \<open>Limiter\<close> (\<open>handlers/fetch.rs\<close>, \<open>rate_limit.rs\<close>): every update of the identifier map made under
    its lock, and the well-formedness they keep; \<open>Limiter_Spec\<close>: the ideal limiter they refine.
  \<^item> \<open>App_State\<close> (\<open>main.rs\<close>): the shared memory and the locked updates of its cells.
  \<^item> \<open>Database\<close> (\<open>database.rs\<close>): the operations on the table, over SQLite's documented behaviour (locale
    \<open>sqlite\<close>) and the contract \<open>secret_store\<close>; \<open>Migrations\<close>: \<open>run_migrations\<close> and \<open>init_db\<close> (locale
    \<open>schema_store\<close>).
  \<^item> \<open>Fetch_Handler\<close>, \<open>Store_Handler\<close> (\<open>handlers/fetch.rs\<close>, \<open>handlers/store.rs\<close>): the handlers, cut at
    their \<open>await\<close> points, and composed for a request that nothing interrupts; \<open>Secrets\<close>: what they
    do to the table.
  \<^item> \<open>Machine\<close>: guarded machines and their invariants (locale \<open>guarded_machine\<close>); \<open>System\<close>: the server as
    such a machine for lookups and stores, one event for each critical section, blocking closure, timeout,
    cancellation, drop of \<open>PendingGuard\<close>, sweep and \<open>retain\<close> of a snapshot; \<open>Ledger\<close>, \<open>Ledger_Steps\<close>: the
    account of reservations and answers and its preservation by each update; \<open>System_Safety\<close>: the
    invariant of the machine; \<open>System_Refinement\<close>: the handlers as runs of the machine, and progress;
    \<open>Budget\<close>, \<open>Misses\<close>, \<open>Custody\<close>: what follows for attempts, for the failure counter and for secrets.
  \<^item> \<open>Attempts_Handler\<close> (\<open>handlers/attempts.rs\<close>), \<open>Info_Handler\<close> (\<open>handlers/info.rs\<close> and the canary of
    \<open>env.rs\<close>; locale \<open>validated_cache\<close>), \<open>Env_Config\<close> (\<open>env.rs\<close>), \<open>Router\<close> (\<open>router.rs\<close>).
  \<^item> \<open>Server\<close> (\<open>main.rs\<close>, \<open>rate_limit.rs\<close>, \<open>handlers/attempts.rs\<close>, \<open>handlers/info.rs\<close>): the process as a
    whole. Around the machine of \<open>System\<close> it adds the polls of \<open>/attempts\<close> at their \<open>await\<close> points and the
    \<open>tokio\<close> mutex they hold across a rebuild, the requests for \<open>/info\<close>, the task of \<open>spawn_sweeper\<close> with its
    timer, and \<open>shutdown_signal\<close> with the end of \<open>main\<close>. \<open>Server_Refinement\<close>: every step of it is a step of
    \<open>System\<close> or leaves lookups and stores alone, so the invariants carry over.
  \<^item> \<open>Telemetry\<close>: the mutex of the snapshot and what is published; \<open>Retention\<close>: how long an identifier is
    remembered; \<open>Lifecycle\<close>: the life of a request and of the server; \<open>Server_Requests\<close>: \<open>serve\<close> of the
    router as runs of the server; \<open>Startup\<close> (\<open>main.rs\<close>): from the environment to the running server.
  \<^item> \<open>Scenario\<close>, \<open>Server_Scenario\<close>: a small server and runs of it, evaluated, on which the properties are
    witnessed.

  \<^bold>\<open>What is shown.\<close> The budget as a count per window and as a rate on the wall clock, down to the
  numbers the operator wrote in the environment; that neither a saturated budget nor a repeated
  \<open>/store\<close> is an oracle; that reservations and
  requests in flight match, so that none leaks and errors are refunded; that the failure counter is exact; that permits are conserved and
  every request can finish without another one; that nothing panics and overload answers carry
  \<open>Retry-After\<close>; that the lazy expiry of the code refines a limiter without it; the round trip of a
  secret, that it is never lost, overwritten or handed out twice, and which routes can touch it; the
  bounds of the buckets with their rounding; the transparency of the canary cache; what a successful
  start guarantees; and that migrations keep the stored rows. Of the process as a whole: that it refines
  the machine of lookups and stores; that at most one poll rebuilds the snapshot at a time and no
  disconnecting client keeps the mutex, that installed snapshots are a TTL apart, and that every body
  served is the snapshot of a state the server was in; that identifiers are forgotten within a bounded
  time, requested again or not; that every request ends after a bounded number of its own events; and
  that a graceful shutdown completes and answers every handler that is still running.

  \<^bold>\<open>Conventions.\<close> Timestamps and durations are integers of nanoseconds, \<open>Instant\<close>s naturals; a Rust
  \<open>String\<close> is the list of its UTF-8 bytes; \<open>usize\<close> has 64 bits. A result \<open>None\<close> of a handler is a panic.
  The crates and services the code calls (\<open>sha2\<close>, \<open>hex\<close>, \<open>base64\<close>, \<open>chrono\<close>, SQLite and diesel, the
  dotenv parser, JSON and gzip encoders, the rejections of \<open>axum\<close>) are parameters; what is assumed of
  them is their documented behaviour and is met by the reference instances of the theories. The runs of
  the machines are finite and of any length; their only fuel is the list of events.

  \<^bold>\<open>Bounds.\<close> The invariant assumes that the wall clock of the machine does not go backwards and that a
  handler reaches the lock within the request timeout of 30 seconds after reading the clock, which the
  \<open>TimeoutLayer\<close> enforces; hence the two timeouts in the bound on the rate. The machine of the whole
  server has one more number, the latency within which the scheduler runs the sweeper after its deadline
  and hands it the lock of the map: it is a parameter, and the time an identifier is remembered is the
  cooldown, a request timeout, a sweep interval and twice that latency. The next deadline of the timer is
  any instant at most an interval after the last wake-up, which covers each missed-tick behaviour
  of \<open>tokio\<close>. A request has at most seven events.

  \<^bold>\<open>Not modelled.\<close> Logging; that \<open>axum\<close> stops accepting at the signal and waits for the running
  handlers, which is its documented behaviour and is built into the steps \<open>step_signal\<close> and \<open>step_stop\<close>;
  the join error of the outer task of \<open>fetch_secret\<close> as an event of the machine (its code cannot panic
  and nothing aborts it; its branch is the definition \<open>join_error_step\<close>, shown harmless below); closing
  of the database semaphore, which nothing does; \<open>chrono\<close>'s overflow at the ends of its range;
  \<open>schema.rs\<close> (generated), module lists, and the code under \<open>cfg(test)\<close>.
\<close>

section \<open>What holds of every reachable state\<close>

text \<open>
  C1. In every reachable state, whatever the interleaving of requests, timeouts, cancellations,
  failures and sweeps, the database has answered at most \<open>rate_limit_max_attempts\<close> distinct
  candidates of one window of an identifier, replays included.
\<close>

theorem window_budget:
  assumes "limits_ok st" "reachable X E (boot st w m d) s"
  shows "card {tk_candidate tk | tk r. (tk, r) \<in> set (answers s) \<and> tk_id_hash tk = i \<and>
      tk_generation tk = g} \<le> unat (rate_limit_max_attempts st)"
proof -
  note L = sys_invD(3) [OF reachable_inv [OF assms]]
  let ?W = "window_candidates (system_owners s) (set (answers s)) i g"
  have "{tk_candidate tk | tk r. (tk, r) \<in> set (answers s) \<and> tk_id_hash tk = i \<and> tk_generation tk = g} \<subseteq> ?W"
    using answered_in_window [OF assms] by blast
  moreover have "finite ?W"
    using owners_okD(1) [OF ledger_okD(2) [OF L]] by (simp add: finite_window_candidates)
  ultimately show ?thesis
    using windows_okD(2) [OF ledger_okD(5) [OF L], of i g] by (meson card_mono order_trans)
qed

theorem window_budget_witness:
  "card {tk_candidate tk | tk r. (tk, r) \<in> set (answers demo_final) \<and> tk_id_hash tk = demo_hash \<and>
     tk_generation tk = 0} \<le> 2"
  using window_budget [OF demo_limits demo_reachable, of demo_hash 0] by (simp add: demo_state_def)



text \<open>
  C6. Reservations and requests in flight match: a candidate of a live window is \<open>Pending\<close> exactly
  when one request, and only one, is in flight with the ticket of that candidate and window. So no
  reservation leaks, whatever was cancelled or failed, and none is lost under its request.
\<close>

theorem reservations_match_requests:
  assumes "limits_ok st" "reachable X E (boot st w m d) s"
    and "hm_get (identifier_rate_limit (app s)) i = Some info"
  shows "hm_get (candidates info) c = Some Pending \<longleftrightarrow>
    (\<exists>!j. \<exists>p tk b. hm_get (jobs s) j = Some p \<and> own_of p = Some (tk, b) \<and>
      tk_key tk = (i, window_started_at info, c))"
proof
  note O = ledger_okD(2) [OF sys_invD(3) [OF reachable_inv [OF assms(1,2)]]]
  assume "hm_get (candidates info) c = Some Pending"
  then obtain j tk b where j: "system_owners s j = Some (tk, b)" "tk_key tk = (i, window_started_at info, c)"
    using owners_okD(2) [OF O assms(3)] by blast
  show "\<exists>!j. \<exists>p tk b. hm_get (jobs s) j = Some p \<and> own_of p = Some (tk, b) \<and>
      tk_key tk = (i, window_started_at info, c)"
  proof (rule ex1I [of _ j])
    show "\<exists>p tk b. hm_get (jobs s) j = Some p \<and> own_of p = Some (tk, b) \<and>
        tk_key tk = (i, window_started_at info, c)"
      using j by (auto simp: system_owners_def split: option.splits)
    show "\<exists>p tk b. hm_get (jobs s) k = Some p \<and> own_of p = Some (tk, b) \<and>
        tk_key tk = (i, window_started_at info, c) \<Longrightarrow> k = j" for k
      using j owners_okD(4) [OF O] owners_job by metis
  qed
next
  note O = ledger_okD(2) [OF sys_invD(3) [OF reachable_inv [OF assms(1,2)]]]
  assume "\<exists>!j. \<exists>p tk b. hm_get (jobs s) j = Some p \<and> own_of p = Some (tk, b) \<and>
      tk_key tk = (i, window_started_at info, c)"
  then obtain j p tk b where j: "hm_get (jobs s) j = Some p" "own_of p = Some (tk, b)"
      "tk_key tk = (i, window_started_at info, c)" by blast
  then show "hm_get (candidates info) c = Some Pending"
    using owners_okD(3) [OF O _ _ , of j tk b info] owners_job [OF j(1)] assms(3) by simp
qed

lemma demo_pending: "hm_get (candidates demo_info) (demo_tag CHR ''c'') = Some Pending"
  by (simp add: demo_info_def hm_simps)

theorem reservations_match_requests_witness:
  "\<exists>!j. \<exists>p tk b. hm_get (jobs demo_final) j = Some p \<and> own_of p = Some (tk, b) \<and>
     tk_key tk = (demo_hash, window_started_at demo_info, demo_tag CHR ''c'')"
proof -
  have entry: "hm_get (identifier_rate_limit (app demo_final)) demo_hash = Some demo_info"
    by (simp add: demo_final_def demo_system_def hm_simps)
  from demo_pending show ?thesis
    by (rule reservations_match_requests [OF demo_limits demo_reachable entry, THEN iffD1])
qed



text \<open>
  C21. The database permits are never lost nor exceeded: those in the semaphore and those held by
  lookups and writes always add up to the configured number, so at most that many blocking
  operations run at once.
\<close>

theorem permits_conserved:
  assumes "limits_ok st" "reachable X E (boot st w m d) s"
  shows "database_semaphore (app s) + card (permit_holders s) = database_semaphore st"
  using sys_invD(6) [OF reachable_inv [OF assms]] .

theorem permits_conserved_witness:
  "database_semaphore (app demo_final) + card (permit_holders demo_final) = 1"
  using permits_conserved [OF demo_limits demo_reachable] by (simp add: demo_state_def)

text \<open>
  C26. The rate-limit map stays well formed and bounded: every entry holds between one and
  \<open>rate_limit_max_attempts\<close> candidates and counts no more failures than committed candidates, and
  there are at most \<open>rate_limit_max_identifiers\<close> entries.
\<close>

theorem map_always_wf:
  assumes "limits_ok st" "reachable X E (boot st w m d) s"
  shows "map_wf (rate_limit_max_attempts st) (rate_limit_max_identifiers st) (identifier_rate_limit (app s))"
  using ledger_okD(1) [OF sys_invD(3) [OF reachable_inv [OF assms]]] .

theorem map_always_wf_witness: "map_wf 2 2 (hm_insert demo_hash demo_info fmempty)"
  using map_always_wf [OF demo_limits demo_reachable]
  by (simp add: demo_state_def demo_final_def demo_system_def)



text \<open>
  C27. Every \<open>429\<close> and \<open>503\<close> answered by the lookup and store handlers, in any reachable state,
  carries a \<open>Retry-After\<close> header.
\<close>

theorem overload_answers_retry:
  assumes "limits_ok st" "reachable X E (boot st w m d) s" "hm_get (jobs s) j = Some (Responded r)"
    and "status r = TOO_MANY_REQUESTS \<or> status r = SERVICE_UNAVAILABLE"
  shows "has_retry_after r"
  using sys_invD(5) [OF reachable_inv [OF assms(1,2)] assms(3)] assms(4) by (auto simp: polite_def)

theorem overload_answers_retry_witness: "has_retry_after (rate_limited nanos_per_minute 2 0 0)"
  using overload_answers_retry [OF demo_limits demo_rejected_reachable,
      of 2 "rate_limited nanos_per_minute 2 0 0"]
  by (simp add: demo_rejected_def demo_system_def hm_simps rate_limited_def)

section \<open>A task that is lost\<close>

text \<open>The cleanup for a lost task changes nothing when the task had already finalized its ticket.\<close>

lemma join_error_after_finalize:
  assumes "state_wf st"
  shows "snd (join_error_step tk (finalize_ticket tk r st)) = finalize_ticket tk r st"
proof (cases "tk_is_new tk")
  case True
  let ?m = "finalize (tk_id_hash tk) (tk_candidate tk) (tk_generation tk) r (identifier_rate_limit st)"
  have wf: "map_wf (rate_limit_max_attempts st) (rate_limit_max_identifiers st) ?m"
    using assms by (simp add: state_wf_def wf_intros)
  have "remove_pending (tk_id_hash tk) (tk_candidate tk) (tk_generation tk) ?m =
      finalize (tk_id_hash tk) (tk_candidate tk) (tk_generation tk) (Inl (Join [])) ?m"
    by (simp only: finalize_error_eq [OF wf])
  also have "\<dots> = ?m" by (rule finalize_idempotent)
  finally show ?thesis
    using True by (simp add: join_error_step_def finalize_ticket_def release_ticket_def with_map_def)
qed (simp add: join_error_step_def finalize_ticket_def)

section \<open>Progress\<close>



end
